theory Spec2Isabelle
  imports Complex_Main "HOL-Library.Multiset"
begin

section \<open>Data model\<close>

subsection \<open>Python values\<close>

text \<open>
  A Python \<open>float\<close> is an IEEE-754 binary64 number. A finite one is kept as its sign,
  an unsigned mantissa and a binary exponent, with value \<open>(-1)^s * m * 2^e\<close>; the two
  infinities and NaN are values of their own (\<open>json.loads\<close> accepts \<open>Infinity\<close> and
  \<open>NaN\<close>, and so does \<open>argparse\<close> with \<open>type=float\<close>).
\<close>

datatype pyfloat = Finite bool nat int | Infinity bool | NaN

text \<open>
  What \<open>json.loads\<close> returns: \<open>None\<close>, a \<open>bool\<close>, an \<open>int\<close>, a \<open>float\<close>, a \<open>str\<close>,
  a \<open>list\<close> or a \<open>dict\<close> with string keys. A \<open>dict\<close> keeps its insertion order, so it is an
  association list; the parser leaves no key twice. A \<open>str\<close> is a \<open>string\<close>, one
  \<open>char\<close> for each code point (code points below 256 only).
\<close>

datatype json =
    JNull
  | JBool bool
  | JInt int
  | JFloat pyfloat
  | JStr string
  | JArr "json list"
  | JObj "(string \<times> json) list"

text \<open>The exceptions the three scripts can end with.\<close>

datatype py_error =
    JSONDecodeError
  | AttributeError
  | OSError
  | IndexError
  | OverflowError
  | ValueError
  | RecursionError

text \<open>
  The library functions the scripts call and whose code is not part of the repository:
  \<open>json.loads\<close>, \<open>json.dumps\<close>, and \<open>str()\<close> of the values whose rendering is not
  written out below (a \<open>float\<close>, a \<open>list\<close>, a \<open>dict\<close>). \<open>json.loads\<close> returns a
  value or raises: \<open>json.JSONDecodeError\<close> on text that is not JSON, and on text that
  is JSON it can still raise another exception (\<open>ValueError\<close> for an integer of more
  digits than the interpreter converts, \<open>RecursionError\<close> for deep nesting).
\<close>

record pylib =
  json_loads :: "string \<Rightarrow> py_error + json"
  json_dumps :: "json \<Rightarrow> string"
  str_other :: "json \<Rightarrow> string"

subsection \<open>Strings\<close>

abbreviation newline :: char where
  "newline \<equiv> CHR 0x0A"

definition py_isspace :: "char \<Rightarrow> bool" where
  \<comment> \<open>\<open>str.isspace\<close> on one code point below 256\<close>
  "py_isspace c =
     (let n = (of_char c :: nat)
      in (9 \<le> n \<and> n \<le> 13) \<or> (28 \<le> n \<and> n \<le> 32) \<or> n = 133 \<or> n = 160)"

definition strip :: "string \<Rightarrow> string" where
  \<comment> \<open>\<open>line.strip()\<close>: whitespace removed at both ends\<close>
  "strip s = rev (dropWhile py_isspace (rev (dropWhile py_isspace s)))"

fun digits :: "nat \<Rightarrow> string" where
  \<comment> \<open>the decimal digits of a number\<close>
  "digits n =
     (if n < 10 then [''0123456789'' ! n]
      else digits (n div 10) @ [''0123456789'' ! (n mod 10)])"

declare digits.simps [simp del]

definition str_int :: "int \<Rightarrow> string" where
  \<comment> \<open>\<open>str(i)\<close> of an \<open>int\<close>\<close>
  "str_int i = (if i < 0 then CHR ''-'' # digits (nat (- i)) else digits (nat i))"

definition py_format :: "pylib \<Rightarrow> json \<Rightarrow> string" where
  \<comment> \<open>what \<open>f"{v}"\<close> puts for \<open>v\<close>: \<open>format(v, "")\<close>, which is \<open>str(v)\<close>\<close>
  "py_format L v =
     (case v of
        JStr s \<Rightarrow> s
      | JNull \<Rightarrow> ''None''
      | JBool b \<Rightarrow> (if b then ''True'' else ''False'')
      | JInt i \<Rightarrow> str_int i
      | _ \<Rightarrow> str_other L v)"

definition dict_get :: "(string \<times> json) list \<Rightarrow> string \<Rightarrow> json \<Rightarrow> json" where
  \<comment> \<open>\<open>d.get(key, default)\<close>\<close>
  "dict_get d k dflt = (case map_of d k of None \<Rightarrow> dflt | Some v \<Rightarrow> v)"

section \<open>The two transformers: one record\<close>

text \<open>
  \<open>transform_example\<close> of \<open>transform_to_standard.py\<close>. The argument is whatever
  \<open>json.loads\<close> returned; only a \<open>dict\<close> has a \<open>get\<close> method, and the first
  \<open>example.get\<close> on anything else raises \<open>AttributeError\<close>.
\<close>

definition std_transform_example :: "pylib \<Rightarrow> json \<Rightarrow> py_error + json" where
  "std_transform_example L example =
     (case example of
        JObj d \<Rightarrow>
          (let text =
                 ''Query: '' @ py_format L (dict_get d ''query'' (JStr '''')) @ [newline]
               @ ''Context: '' @ py_format L (dict_get d ''context'' (JStr '''')) @ [newline]
               @ ''Answer: '' @ py_format L (dict_get d ''response'' (JStr ''''))
           in Inr (JObj [(''text'', JStr text)]))
      | _ \<Rightarrow> Inl AttributeError)"

text \<open>\<open>transform_example\<close> of \<open>transform_to_conversational.py\<close>.\<close>

definition conv_transform_example :: "pylib \<Rightarrow> json \<Rightarrow> py_error + json" where
  "conv_transform_example L example =
     (case example of
        JObj d \<Rightarrow>
          (let user_message =
                 ''Query: '' @ py_format L (dict_get d ''query'' (JStr '''')) @ [newline]
               @ ''Context: '' @ py_format L (dict_get d ''context'' (JStr '''')) @ [newline]
               @ ''Instruction: From the provided context, please choose exactly one option and respond with the name exactly as it appears.'';
               messages =
                 [JObj [(''role'', JStr ''user''), (''content'', JStr user_message)],
                  JObj [(''role'', JStr ''assistant''),
                        (''content'', JStr (py_format L (dict_get d ''response'' (JStr ''''))))]]
           in Inr (JObj [(''messages'', JArr messages)]))
      | _ \<Rightarrow> Inl AttributeError)"

text \<open>
  The text a field contributes, as the specification words it: nothing when the key is
  absent, the string itself when the value is a string, and the \<open>str()\<close> rendering of
  any other value.
\<close>

definition field_text :: "pylib \<Rightarrow> (string \<times> json) list \<Rightarrow> string \<Rightarrow> string" where
  "field_text L d k =
     (case map_of d k of
        None \<Rightarrow> []
      | Some (JStr s) \<Rightarrow> s
      | Some v \<Rightarrow> py_format L v)"

section \<open>Files and the console\<close>

text \<open>
  The part of the world the scripts touch: the text files by path (each as the text layer
  presents it, decoded and with newlines translated), which paths can be opened for
  writing, and the lines printed to standard output.
\<close>

record world =
  files :: "string \<rightharpoonup> string"
  writable :: "string \<Rightarrow> bool"
  stdout :: "string list"

definition open_write :: "world \<Rightarrow> string \<Rightarrow> py_error + world" where
  \<comment> \<open>\<open>open(path, 'w')\<close>: the file is created or truncated at once\<close>
  "open_write w path =
     (if writable w path then Inr (w\<lparr>files := (files w)(path \<mapsto> [])\<rparr>) else Inl OSError)"

definition file_text :: "world \<Rightarrow> string \<Rightarrow> string" where
  "file_text w path = (case files w path of None \<Rightarrow> [] | Some t \<Rightarrow> t)"

definition file_write :: "world \<Rightarrow> string \<Rightarrow> string \<Rightarrow> world" where
  \<comment> \<open>\<open>f.write(s)\<close> on a file open for writing: the text is appended\<close>
  "file_write w path s = w\<lparr>files := (files w)(path \<mapsto> file_text w path @ s)\<rparr>"

definition py_print :: "world \<Rightarrow> string \<Rightarrow> world" where
  "py_print w s = w\<lparr>stdout := stdout w @ [s]\<rparr>"

fun iter_lines :: "string \<Rightarrow> string list" where
  \<comment> \<open>\<open>for line in f\<close>: each line with its newline, the last one possibly without\<close>
  "iter_lines [] = []"
| "iter_lines (c # cs) =
     (if c = newline then [c] # iter_lines cs
      else (case iter_lines cs of [] \<Rightarrow> [[c]] | l # ls \<Rightarrow> (c # l) # ls))"

section \<open>The two transformers: one file\<close>

text \<open>
  The loop of \<open>transform_file\<close>, which is the same text in both scripts; \<open>tr\<close> is the
  script's own \<open>transform_example\<close>. A blank line is passed over, and so is a line on
  which \<open>json.loads\<close> raises \<open>json.JSONDecodeError\<close> (with a message); any other
  exception of \<open>json.loads\<close> and an exception of \<open>tr\<close> are not caught and end the
  loop, the output file keeping what was written before.
\<close>

fun transform_lines ::
  "pylib \<Rightarrow> (json \<Rightarrow> py_error + json) \<Rightarrow> string \<Rightarrow> string list \<Rightarrow> world \<Rightarrow> (py_error + unit) \<times> world"
where
  "transform_lines L tr output_file [] w = (Inr (), w)"
| "transform_lines L tr output_file (raw # rest) w =
     (let line = strip raw in
      if line = [] then transform_lines L tr output_file rest w
      else
        (case json_loads L line of
           Inl e \<Rightarrow>
             if e = JSONDecodeError
             then transform_lines L tr output_file rest
                    (py_print w (''Error decoding JSON: '' @ line))
             else (Inl e, w)
         | Inr example \<Rightarrow>
             (case tr example of
                Inl e \<Rightarrow> (Inl e, w)
              | Inr transformed \<Rightarrow>
                  transform_lines L tr output_file rest
                    (file_write w output_file (json_dumps L transformed @ [newline])))))"

text \<open>
  \<open>transform_file\<close>: the input is opened first, then the output (which truncates it);
  the lines are read only after that, so they are read from the world as the second
  \<open>open\<close> left it.
\<close>

definition transform_file ::
  "pylib \<Rightarrow> (json \<Rightarrow> py_error + json) \<Rightarrow> string \<Rightarrow> string \<Rightarrow> world \<Rightarrow> (py_error + unit) \<times> world"
where
  "transform_file L tr input_file output_file w =
     (case files w input_file of
        None \<Rightarrow> (Inl OSError, w)
      | Some _ \<Rightarrow>
          (case open_write w output_file of
             Inl e \<Rightarrow> (Inl e, w)
           | Inr w1 \<Rightarrow>
               (case transform_lines L tr output_file (iter_lines (file_text w1 input_file)) w1 of
                  (Inl e, w2) \<Rightarrow> (Inl e, w2)
                | (Inr _, w2) \<Rightarrow>
                    (Inr (), py_print w2 (''Transformed data written to '' @ output_file)))))"

definition conv_transform_file ::
  "pylib \<Rightarrow> string \<Rightarrow> string \<Rightarrow> world \<Rightarrow> (py_error + unit) \<times> world" where
  "conv_transform_file L = transform_file L (conv_transform_example L)"

definition std_transform_file ::
  "pylib \<Rightarrow> string \<Rightarrow> string \<Rightarrow> world \<Rightarrow> (py_error + unit) \<times> world" where
  "std_transform_file L = transform_file L (std_transform_example L)"

section \<open>The splitter\<close>

subsection \<open>Float arithmetic of \<open>int(n_total * test_ratio)\<close>\<close>

fun bitlen :: "nat \<Rightarrow> nat" where
  \<comment> \<open>the number of binary digits\<close>
  "bitlen p = (if p = 0 then 0 else Suc (bitlen (p div 2)))"

declare bitlen.simps [simp del]

definition round_shift :: "nat \<Rightarrow> nat \<Rightarrow> nat" where
  \<comment> \<open>\<open>p / 2^s\<close> rounded to the nearest integer, a tie to the even one\<close>
  "round_shift p s =
     (if s = 0 then p
      else
        (let q = p div 2 ^ s; r = p mod 2 ^ s; h = 2 ^ (s - 1)
         in if r < h \<or> (r = h \<and> even q) then q else q + 1))"

definition round_double :: "bool \<Rightarrow> nat \<Rightarrow> int \<Rightarrow> pyfloat" where
  \<comment> \<open>the double nearest to \<open>(-1)^sg * p * 2^e\<close>: 53 significant bits, no exponent
      under \<open>-1074\<close>, an infinity from \<open>2^1024\<close> on\<close>
  "round_double sg p e =
     (let s = nat (max (int (bitlen p) - 53) (- 1074 - e));
          q = round_shift p s;
          e' = e + int s
      in if q \<noteq> 0 \<and> int (bitlen q) + e' > 1024 then Infinity sg else Finite sg q e')"

definition float_of_nat :: "nat \<Rightarrow> py_error + pyfloat" where
  \<comment> \<open>the conversion of the \<open>int\<close> operand of \<open>int * float\<close>\<close>
  "float_of_nat n =
     (case round_double False n 0 of Infinity _ \<Rightarrow> Inl OverflowError | x \<Rightarrow> Inr x)"

fun fmul :: "pyfloat \<Rightarrow> pyfloat \<Rightarrow> pyfloat" where
  "fmul (Finite s1 m1 e1) (Finite s2 m2 e2) = round_double (s1 \<noteq> s2) (m1 * m2) (e1 + e2)"
| "fmul (Finite s1 m1 e1) (Infinity s2) = (if m1 = 0 then NaN else Infinity (s1 \<noteq> s2))"
| "fmul (Infinity s1) (Finite s2 m2 e2) = (if m2 = 0 then NaN else Infinity (s1 \<noteq> s2))"
| "fmul (Infinity s1) (Infinity s2) = Infinity (s1 \<noteq> s2)"
| "fmul NaN y = NaN"
| "fmul x NaN = NaN"

definition trunc_mag :: "nat \<Rightarrow> int \<Rightarrow> nat" where
  \<comment> \<open>the integer part of \<open>m * 2^e\<close>\<close>
  "trunc_mag m e = (if 0 \<le> e then m * 2 ^ nat e else m div 2 ^ nat (- e))"

definition py_int :: "pyfloat \<Rightarrow> py_error + int" where
  \<comment> \<open>\<open>int(x)\<close> of a \<open>float\<close>: truncation towards zero\<close>
  "py_int x =
     (case x of
        NaN \<Rightarrow> Inl ValueError
      | Infinity _ \<Rightarrow> Inl OverflowError
      | Finite sg m e \<Rightarrow> Inr (if sg then - int (trunc_mag m e) else int (trunc_mag m e)))"

definition float_val :: "pyfloat \<Rightarrow> rat" where
  \<comment> \<open>the number a finite float stands for\<close>
  "float_val x =
     (case x of
        Finite sg m e \<Rightarrow>
          (if sg then - 1 else 1) * of_nat m * (if 0 \<le> e then 2 ^ nat e else 1 / 2 ^ nat (- e))
      | _ \<Rightarrow> 0)"

subsection \<open>Slices\<close>

definition slice_to :: "int \<Rightarrow> 'a list \<Rightarrow> 'a list" where
  \<comment> \<open>\<open>data[:k]\<close>; a negative \<open>k\<close> counts from the end\<close>
  "slice_to k xs = take (nat (if k < 0 then int (length xs) + k else k)) xs"

definition slice_from :: "int \<Rightarrow> 'a list \<Rightarrow> 'a list" where
  \<comment> \<open>\<open>data[k:]\<close>\<close>
  "slice_from k xs = drop (nat (if k < 0 then int (length xs) + k else k)) xs"

subsection \<open>The seeded shuffle\<close>

text \<open>
  The generator of the \<open>random\<close> module is not part of the repository: it is a state
  \<open>'g\<close>, set by \<open>random.seed\<close>, and \<open>_randbelow n\<close>, which draws a number and moves the
  state on.
\<close>

record 'g pyrandom =
  seed_state :: "int \<Rightarrow> 'g"
  randbelow :: "nat \<Rightarrow> 'g \<Rightarrow> nat \<times> 'g"

text \<open>
  \<open>random.shuffle\<close> is \<open>for i in reversed(range(1, len(x))): j = randbelow(i + 1);
  x[i], x[j] = x[j], x[i]\<close>. An index outside the list raises \<open>IndexError\<close>.
\<close>

fun shuffle_from :: "'g pyrandom \<Rightarrow> nat \<Rightarrow> 'a list \<Rightarrow> 'g \<Rightarrow> py_error + 'a list \<times> 'g" where
  "shuffle_from R 0 x g = Inr (x, g)"
| "shuffle_from R (Suc k) x g =
     (let i = Suc k; (j, g') = randbelow R (i + 1) g
      in if j < length x then shuffle_from R k (x[i := x ! j, j := x ! i]) g'
         else Inl IndexError)"

definition shuffle :: "'g pyrandom \<Rightarrow> 'a list \<Rightarrow> 'g \<Rightarrow> py_error + 'a list \<times> 'g" where
  "shuffle R x g = shuffle_from R (length x - 1) x g"

subsection \<open>\<open>split_jsonl\<close>\<close>

fun loads_all :: "pylib \<Rightarrow> string list \<Rightarrow> py_error + json list" where
  \<comment> \<open>\<open>[json.loads(line) for line in lines]\<close>: the first exception ends it\<close>
  "loads_all L [] = Inr []"
| "loads_all L (line # rest) =
     (case json_loads L line of
        Inl e \<Rightarrow> Inl e
      | Inr v \<Rightarrow> (case loads_all L rest of Inl e \<Rightarrow> Inl e | Inr vs \<Rightarrow> Inr (v # vs)))"

definition read_dataset :: "pylib \<Rightarrow> string \<Rightarrow> py_error + json list" where
  \<comment> \<open>lines 25 and 26\<close>
  "read_dataset L text =
     (let lines = map strip (filter (\<lambda>line. strip line \<noteq> []) (iter_lines text))
      in loads_all L lines)"

definition split_data ::
  "'g pyrandom \<Rightarrow> json list \<Rightarrow> pyfloat \<Rightarrow> int \<Rightarrow> py_error + nat \<times> json list \<times> json list" where
  \<comment> \<open>lines 29 to 36: \<open>(n_total, train_data, test_data)\<close>\<close>
  "split_data R data0 test_ratio seed =
     (case shuffle R data0 (seed_state R seed) of
        Inl e \<Rightarrow> Inl e
      | Inr (data, g) \<Rightarrow>
          (let n_total = length data in
           case float_of_nat n_total of
             Inl e \<Rightarrow> Inl e
           | Inr f_total \<Rightarrow>
               (case py_int (fmul f_total test_ratio) of
                  Inl e \<Rightarrow> Inl e
                | Inr n_test \<Rightarrow> Inr (n_total, slice_from n_test data, slice_to n_test data))))"

fun write_items :: "pylib \<Rightarrow> string \<Rightarrow> json list \<Rightarrow> world \<Rightarrow> world" where
  "write_items L output_file [] w = w"
| "write_items L output_file (item # rest) w =
     write_items L output_file rest (file_write w output_file (json_dumps L item @ [newline]))"

definition write_jsonl :: "pylib \<Rightarrow> json list \<Rightarrow> string \<Rightarrow> world \<Rightarrow> (py_error + unit) \<times> world" where
  "write_jsonl L data output_file w =
     (case open_write w output_file of
        Inl e \<Rightarrow> (Inl e, w)
      | Inr w1 \<Rightarrow> (Inr (), write_items L output_file data w1))"

definition split_jsonl ::
  "pylib \<Rightarrow> 'g pyrandom \<Rightarrow> string \<Rightarrow> string \<Rightarrow> string \<Rightarrow> pyfloat \<Rightarrow> int \<Rightarrow> world
     \<Rightarrow> (py_error + unit) \<times> world"
where
  "split_jsonl L R input_file train_file test_file test_ratio seed w =
     (case files w input_file of
        None \<Rightarrow> (Inl OSError, w)
      | Some text \<Rightarrow>
          (case read_dataset L text of
             Inl e \<Rightarrow> (Inl e, w)
           | Inr data0 \<Rightarrow>
               (case split_data R data0 test_ratio seed of
                  Inl e \<Rightarrow> (Inl e, w)
                | Inr (n_total, train_data, test_data) \<Rightarrow>
                    (case write_jsonl L train_data train_file w of
                       (Inl e, w1) \<Rightarrow> (Inl e, w1)
                     | (Inr _, w1) \<Rightarrow>
                         (case write_jsonl L test_data test_file w1 of
                            (Inl e, w2) \<Rightarrow> (Inl e, w2)
                          | (Inr _, w2) \<Rightarrow>
                              (Inr (),
                               py_print
                                 (py_print
                                    (py_print w2
                                       (''Total examples: '' @ digits n_total))
                                    (''Train examples: '' @ digits (length train_data)))
                                 (''Test examples: '' @ digits (length test_data))))))))"

definition jsonl_text :: "pylib \<Rightarrow> json list \<Rightarrow> string" where
  \<comment> \<open>one serialised item on each line\<close>
  "jsonl_text L items = concat (map (\<lambda>item. json_dumps L item @ [newline]) items)"

section \<open>Readings of the specification\<close>

definition is_dict :: "json \<Rightarrow> bool" where
  "is_dict v = (case v of JObj _ \<Rightarrow> True | _ \<Rightarrow> False)"

definition nonblank_lines :: "string \<Rightarrow> string list" where
  \<comment> \<open>the lines of a file that are not blank, as read\<close>
  "nonblank_lines text = filter (\<lambda>raw. strip raw \<noteq> []) (iter_lines text)"

definition parsed_lines :: "pylib \<Rightarrow> string list \<Rightarrow> json list" where
  \<comment> \<open>the values of the non-blank lines for which \<open>json.loads\<close> returns, in order\<close>
  "parsed_lines L raws =
     List.map_filter
       (\<lambda>raw. if strip raw = [] then None
              else (case json_loads L (strip raw) of Inl e \<Rightarrow> None | Inr v \<Rightarrow> Some v))
       raws"

definition load_errors :: "pylib \<Rightarrow> string list \<Rightarrow> py_error list" where
  \<comment> \<open>the exceptions of \<open>json.loads\<close> on the non-blank lines, in order\<close>
  "load_errors L raws =
     List.map_filter
       (\<lambda>raw. if strip raw = [] then None
              else (case json_loads L (strip raw) of Inl e \<Rightarrow> Some e | Inr v \<Rightarrow> None))
       raws"

definition rejected_line :: "pylib \<Rightarrow> string \<Rightarrow> bool" where
  \<comment> \<open>a non-blank line on which \<open>json.loads\<close> raises\<close>
  "rejected_line L raw = (strip raw \<noteq> [] \<and> isl (json_loads L (strip raw)))"

definition exact_product :: "nat \<Rightarrow> pyfloat \<Rightarrow> rat" where
  \<comment> \<open>\<open>n_total * test_ratio\<close> as a product of numbers, without rounding\<close>
  "exact_product n r = of_nat n * float_val r"

definition rng_in_range :: "'g pyrandom \<Rightarrow> bool" where
  \<comment> \<open>the contract of \<open>_randbelow\<close>: a number below its argument\<close>
  "rng_in_range R = (\<forall>n g. 0 < n \<longrightarrow> fst (randbelow R n g) < n)"

section \<open>A small library instance for the examples\<close>

text \<open>
  \<open>sample_dumps\<close> follows \<open>json.dumps\<close> with its default settings (separators
  \<open>", "\<close> and \<open>": "\<close>, every character outside printable ASCII escaped), except for
  floats, which the examples do not use. \<open>sample_loads\<close> knows the few lines of the
  examples, raises \<open>ValueError\<close> on a line of more than 4300 digits (as CPython 3.11
  does) and \<open>json.JSONDecodeError\<close> on every other line; the rendering \<open>str_other\<close> is not reached by
  the examples and is left empty. \<open>sample_random\<close> is a linear congruential generator.
\<close>

definition escape_char :: "char \<Rightarrow> string" where
  "escape_char c =
     (let n = (of_char c :: nat) in
      if c = CHR 0x22 then [CHR 0x5C, CHR 0x22]
      else if c = CHR 0x5C then [CHR 0x5C, CHR 0x5C]
      else if c = newline then [CHR 0x5C, CHR ''n'']
      else if c = CHR 0x0D then [CHR 0x5C, CHR ''r'']
      else if c = CHR 0x09 then [CHR 0x5C, CHR ''t'']
      else if c = CHR 0x08 then [CHR 0x5C, CHR ''b'']
      else if c = CHR 0x0C then [CHR 0x5C, CHR ''f'']
      else if n < 32 \<or> 126 < n then
        [CHR 0x5C, CHR ''u'', CHR ''0'', CHR ''0'',
         ''0123456789abcdef'' ! (n div 16), ''0123456789abcdef'' ! (n mod 16)]
      else [c])"

definition quote :: "string \<Rightarrow> string" where
  "quote s = CHR 0x22 # concat (map escape_char s) @ [CHR 0x22]"

fun join :: "string \<Rightarrow> string list \<Rightarrow> string" where
  "join sep [] = []"
| "join sep [x] = x"
| "join sep (x # y # ys) = x @ sep @ join sep (y # ys)"

fun sample_dumps :: "json \<Rightarrow> string" where
  "sample_dumps JNull = ''null''"
| "sample_dumps (JBool b) = (if b then ''true'' else ''false'')"
| "sample_dumps (JInt i) = str_int i"
| "sample_dumps (JFloat x) = []"
| "sample_dumps (JStr s) = quote s"
| "sample_dumps (JArr xs) = ''['' @ join '', '' (map sample_dumps xs) @ '']''"
| "sample_dumps (JObj d) =
     ''{'' @ join '', '' (map (\<lambda>kv. quote (fst kv) @ '': '' @ sample_dumps (snd kv)) d) @ ''}''"

definition is_digit :: "char \<Rightarrow> bool" where
  "is_digit c = (c \<in> set ''0123456789'')"

definition sample_loads :: "string \<Rightarrow> py_error + json" where
  "sample_loads s =
     (if 4300 < length s \<and> list_all is_digit s then Inl ValueError
      else if s = ''{}'' then Inr (JObj [])
      else if s = ''[]'' then Inr (JArr [])
      else if s = ''5'' then Inr (JInt 5)
      else if s = ''7'' then Inr (JInt 7)
      else if s = ''null'' then Inr JNull
      else Inl JSONDecodeError)"

definition sample_lib :: pylib where
  "sample_lib = \<lparr>json_loads = sample_loads, json_dumps = sample_dumps, str_other = (\<lambda>v. [])\<rparr>"

definition sample_random :: "nat pyrandom" where
  "sample_random =
     \<lparr>seed_state = (\<lambda>seed. nat \<bar>seed\<bar>),
      randbelow = (\<lambda>n g. (g mod n, (1103515245 * g + 12345) mod 2147483648))\<rparr>"

definition default_test_ratio :: pyfloat where
  \<comment> \<open>the double nearest to \<open>0.2\<close>, the default of \<open>--test_ratio\<close>\<close>
  "default_test_ratio = Finite False 7205759403792794 (- 55)"

definition sample_world :: "string \<Rightarrow> world" where
  \<comment> \<open>one input file, every path writable, nothing printed yet\<close>
  "sample_world text =
     \<lparr>files = [''in.jsonl'' \<mapsto> text], writable = (\<lambda>path. True), stdout = []\<rparr>"

section \<open>Properties\<close>

subsection \<open>One record\<close>

lemma py_format_get:
  "py_format L (dict_get d k (JStr [])) = field_text L d k"
  by (simp add: py_format_def dict_get_def field_text_def split: option.split json.split)

text \<open>
  C5. For every record that is a JSON object, the standard transformer returns, without
  an error, exactly the object \<open>{"text": "Query: {query}\nContext: {context}\nAnswer:
  {response}"}\<close>, where each of the three fields is substituted from the record and is
  the empty string when its key is absent.
\<close>

theorem std_transform_example_text:
  "std_transform_example L (JObj d) =
     Inr (JObj [(''text'', JStr (''Query: '' @ field_text L d ''query'' @ [newline]
                              @ ''Context: '' @ field_text L d ''context'' @ [newline]
                              @ ''Answer: '' @ field_text L d ''response''))])
   \<and> field_text L [] ''query'' = []
   \<and> std_transform_example L (JObj []) =
       Inr (JObj [(''text'', JStr (''Query: '' @ [newline] @ ''Context: '' @ [newline] @ ''Answer: ''))])"
  by (simp add: std_transform_example_def py_format_get field_text_def)

subsection \<open>Files and lines\<close>

lemma file_text_py_print: "file_text (py_print w s) p = file_text w p"
  by (simp add: file_text_def py_print_def)

lemma file_text_file_write: "file_text (file_write w p s) p = file_text w p @ s"
  by (simp add: file_text_def file_write_def)

lemma files_file_write_other: "q \<noteq> p \<Longrightarrow> files (file_write w p s) q = files w q"
  by (simp add: file_write_def)

lemma files_py_print: "files (py_print w s) = files w"
  by (simp add: py_print_def)

lemma writable_py_print: "writable (py_print w s) = writable w"
  by (simp add: py_print_def)

lemma writable_file_write: "writable (file_write w p s) = writable w"
  by (simp add: file_write_def)

lemma files_file_write_same: "files (file_write w p s) p = Some (file_text w p @ s)"
  by (simp add: file_write_def)

lemma parsed_lines_Nil: "parsed_lines L [] = []"
  by (simp add: parsed_lines_def map_filter_simps)

lemma parsed_lines_Cons:
  "parsed_lines L (raw # rest) =
     (if strip raw = [] then parsed_lines L rest
      else (case json_loads L (strip raw) of
              Inl e \<Rightarrow> parsed_lines L rest
            | Inr v \<Rightarrow> v # parsed_lines L rest))"
  by (simp add: parsed_lines_def map_filter_simps split: sum.split)

lemma load_errors_Nil: "load_errors L [] = []"
  by (simp add: load_errors_def map_filter_simps)

lemma load_errors_Cons:
  "load_errors L (raw # rest) =
     (if strip raw = [] then load_errors L rest
      else (case json_loads L (strip raw) of
              Inl e \<Rightarrow> e # load_errors L rest
            | Inr v \<Rightarrow> load_errors L rest))"
  by (simp add: load_errors_def map_filter_simps split: sum.split)

lemma length_parsed_lines:
  "length (parsed_lines L raws) \<le> length (filter (\<lambda>raw. strip raw \<noteq> []) raws)"
  by (induction raws) (auto simp: parsed_lines_Nil parsed_lines_Cons split: sum.split)

lemma load_errors_empty_iff:
  "load_errors L raws = [] \<longleftrightarrow> (\<forall>raw \<in> set raws. \<not> rejected_line L raw)"
  by (induction raws)
     (auto simp: load_errors_Nil load_errors_Cons rejected_line_def split: sum.split)

lemma jsonl_text_Nil: "jsonl_text L [] = []"
  by (simp add: jsonl_text_def)

lemma jsonl_text_Cons: "jsonl_text L (x # xs) = json_dumps L x @ [newline] @ jsonl_text L xs"
  by (simp add: jsonl_text_def)

subsection \<open>The loop of the transformers\<close>

lemma transform_lines_ok:
  "\<forall>e \<in> set (load_errors L raws). e = JSONDecodeError \<Longrightarrow>
   map tr (parsed_lines L raws) = map Inr outs \<Longrightarrow>
   \<exists>w'. transform_lines L tr out raws w = (Inr (), w')
       \<and> file_text w' out = file_text w out @ jsonl_text L outs
       \<and> (\<forall>q. q \<noteq> out \<longrightarrow> files w' q = files w q)
       \<and> (files w out \<noteq> None \<longrightarrow> files w' out \<noteq> None)
       \<and> writable w' = writable w"
proof (induction raws arbitrary: w outs)
  case Nil
  then show ?case by (simp add: parsed_lines_Nil jsonl_text_Nil)
next
  case (Cons raw rest)
  show ?case
  proof (cases "strip raw = []")
    case True
    with Cons show ?thesis by (simp add: parsed_lines_Cons load_errors_Cons)
  next
    case nb: False
    show ?thesis
    proof (cases "json_loads L (strip raw)")
      case (Inl e)
      with nb Cons.prems(1) have e: "e = JSONDecodeError"
        and errs: "\<forall>e \<in> set (load_errors L rest). e = JSONDecodeError"
        by (simp_all add: load_errors_Cons)
      from Inl nb Cons.prems(2) have "map tr (parsed_lines L rest) = map Inr outs"
        by (simp add: parsed_lines_Cons)
      from Cons.IH[OF errs this, of "py_print w (''Error decoding JSON: '' @ strip raw)"] nb Inl e
      show ?thesis by (simp add: file_text_py_print files_py_print writable_py_print)
    next
      case (Inr v)
      with nb Cons.prems(1) have errs: "\<forall>e \<in> set (load_errors L rest). e = JSONDecodeError"
        by (simp add: load_errors_Cons)
      from Inr nb Cons.prems(2) obtain t outs' where
        t: "tr v = Inr t" and outs: "outs = t # outs'"
        and rest: "map tr (parsed_lines L rest) = map Inr outs'"
        by (auto simp: parsed_lines_Cons map_eq_Cons_conv)
      from Cons.IH[OF errs rest, of "file_write w out (json_dumps L t @ [newline])"] nb Inr t outs
      show ?thesis
        by (auto simp: file_text_file_write jsonl_text_Cons files_file_write_other writable_file_write
            files_file_write_same)
    qed
  qed
qed

text \<open>
  How the loop ends: without an error exactly when no line raises anything but a decode
  error and every parsed value is a \<open>dict\<close>; otherwise with \<open>AttributeError\<close> from a
  value that is not a \<open>dict\<close>, or with the exception of \<open>json.loads\<close> that is not a
  decode error.
\<close>

lemma transform_lines_fst:
  assumes dict: "\<And>v. is_dict v \<Longrightarrow> \<exists>t. tr v = Inr t"
      and other: "\<And>v. \<not> is_dict v \<Longrightarrow> tr v = Inl AttributeError"
  shows "(fst (transform_lines L tr out raws w) = Inr ()
            \<and> (\<forall>e \<in> set (load_errors L raws). e = JSONDecodeError)
            \<and> (\<forall>v \<in> set (parsed_lines L raws). is_dict v))
       \<or> (fst (transform_lines L tr out raws w) = Inl AttributeError
            \<and> (\<exists>v \<in> set (parsed_lines L raws). \<not> is_dict v))
       \<or> (\<exists>e. fst (transform_lines L tr out raws w) = Inl e
            \<and> e \<noteq> JSONDecodeError \<and> e \<in> set (load_errors L raws))"
proof (induction raws arbitrary: w)
  case Nil
  then show ?case by (simp add: parsed_lines_Nil load_errors_Nil)
next
  case (Cons raw rest)
  show ?case
  proof (cases "strip raw = []")
    case True
    with Cons[of w] show ?thesis by (simp add: parsed_lines_Cons load_errors_Cons)
  next
    case nb: False
    show ?thesis
    proof (cases "json_loads L (strip raw)")
      case (Inl e)
      show ?thesis
      proof (cases "e = JSONDecodeError")
        case True
        with Cons[of "py_print w (''Error decoding JSON: '' @ strip raw)"] nb Inl show ?thesis
          by (auto simp: parsed_lines_Cons load_errors_Cons)
      next
        case False
        with nb Inl show ?thesis
          by (simp add: parsed_lines_Cons load_errors_Cons)
      qed
    next
      case (Inr v)
      show ?thesis
      proof (cases "is_dict v")
        case True
        then obtain t where t: "tr v = Inr t" using dict by blast
        with Cons[of "file_write w out (json_dumps L t @ [newline])"] nb Inr True show ?thesis
          by (auto simp: parsed_lines_Cons load_errors_Cons)
      next
        case False
        with other have "tr v = Inl AttributeError" by blast
        with nb Inr False show ?thesis
          by (simp add: parsed_lines_Cons load_errors_Cons)
      qed
    qed
  qed
qed

lemma conv_transform_example_dict:
  "conv_transform_example L (JObj d) =
     Inr (JObj [(''messages'', JArr
       [JObj [(''role'', JStr ''user''),
              (''content'', JStr (''Query: '' @ field_text L d ''query'' @ [newline]
                 @ ''Context: '' @ field_text L d ''context'' @ [newline]
                 @ ''Instruction: From the provided context, please choose exactly one option and respond with the name exactly as it appears.''))],
        JObj [(''role'', JStr ''assistant''),
              (''content'', JStr (field_text L d ''response''))]])])"
  by (simp add: conv_transform_example_def py_format_get)

lemma transform_example_dict_ok:
  "is_dict v \<Longrightarrow> \<exists>t. conv_transform_example L v = Inr t"
  "is_dict v \<Longrightarrow> \<exists>t. std_transform_example L v = Inr t"
  by (cases v; simp add: is_dict_def conv_transform_example_def std_transform_example_def)+

lemma transform_example_other:
  "\<not> is_dict v \<Longrightarrow> conv_transform_example L v = Inl AttributeError"
  "\<not> is_dict v \<Longrightarrow> std_transform_example L v = Inl AttributeError"
  by (cases v; simp add: is_dict_def conv_transform_example_def std_transform_example_def)+

text \<open>
  C4 (as amended). For every record that is a JSON object the conversational transformer
  returns exactly \<open>{"messages": [m1, m2]}\<close>: \<open>m1\<close> has role \<open>user\<close> and the template as
  content, with the query and context fields substituted; \<open>m2\<close> has role \<open>assistant\<close>
  and as content the text of the response field. The text of a field is empty when the
  key is absent and is the field itself when it is a string, so for a string response
  the content is the response verbatim; any other value is rendered by \<open>str()\<close>.
\<close>

theorem conv_transform_example_messages:
  "conv_transform_example L (JObj d) =
     Inr (JObj [(''messages'', JArr
       [JObj [(''role'', JStr ''user''),
              (''content'', JStr (''Query: '' @ field_text L d ''query'' @ [newline]
                 @ ''Context: '' @ field_text L d ''context'' @ [newline]
                 @ ''Instruction: From the provided context, please choose exactly one option and respond with the name exactly as it appears.''))],
        JObj [(''role'', JStr ''assistant''),
              (''content'', JStr (field_text L d ''response''))]])])
   \<and> (\<forall>k. map_of d k = None \<longrightarrow> field_text L d k = [])
   \<and> (\<forall>k s. map_of d k = Some (JStr s) \<longrightarrow> JStr (field_text L d k) = dict_get d k (JStr []))
   \<and> (\<forall>k v. map_of d k = Some v \<longrightarrow> field_text L d k = py_format L v)"
  by (auto simp: conv_transform_example_dict field_text_def dict_get_def py_format_def split: json.split)

theorem conv_transform_example_messages_witness:
  "conv_transform_example sample_lib (JObj [(''query'', JStr ''Where is the sofa?''), (''response'', JStr ''area_5'')]) =
     Inr (JObj [(''messages'', JArr
       [JObj [(''role'', JStr ''user''),
              (''content'', JStr (''Query: Where is the sofa?'' @ [newline]
                 @ ''Context: '' @ [newline]
                 @ ''Instruction: From the provided context, please choose exactly one option and respond with the name exactly as it appears.''))],
        JObj [(''role'', JStr ''assistant''), (''content'', JStr ''area_5'')]])])
   \<and> map_of [(''query'', JStr ''Where is the sofa?''), (''response'', JStr ''area_5'')] ''response''
       = Some (JStr ''area_5'')
   \<and> map_of [(''query'', JStr ''Where is the sofa?''), (''response'', JStr ''area_5'')] ''context''
       = None"
  using conv_transform_example_messages
    [of sample_lib "[(''query'', JStr ''Where is the sofa?''), (''response'', JStr ''area_5'')]"]
  by (simp add: field_text_def)

theorem conv_response_not_verbatim:
  "conv_transform_example sample_lib (JObj [(''response'', JNull)]) =
     Inr (JObj [(''messages'', JArr
       [JObj [(''role'', JStr ''user''),
              (''content'', JStr (''Query: '' @ [newline] @ ''Context: '' @ [newline]
                 @ ''Instruction: From the provided context, please choose exactly one option and respond with the name exactly as it appears.''))],
        JObj [(''role'', JStr ''assistant''), (''content'', JStr ''None'')]])])
   \<and> dict_get [(''response'', JNull)] ''response'' (JStr []) = JNull
   \<and> JStr ''None'' \<noteq> JNull"
  by (simp add: conv_transform_example_def py_format_def dict_get_def)

lemma parsed_lines_filter:
  "parsed_lines L raws =
     map (\<lambda>raw. projr (json_loads L (strip raw)))
       (filter (\<lambda>raw. strip raw \<noteq> [] \<and> \<not> isl (json_loads L (strip raw))) raws)"
  by (induction raws) (auto simp: parsed_lines_Nil parsed_lines_Cons split: sum.split)

lemma transform_file_ok:
  assumes inp: "files w input_file = Some body"
      and out: "writable w output_file"
      and ne: "input_file \<noteq> output_file"
      and errs: "\<forall>e \<in> set (load_errors L (iter_lines body)). e = JSONDecodeError"
      and tr: "map tr (parsed_lines L (iter_lines body)) = map Inr outs"
  shows "\<exists>w'. transform_file L tr input_file output_file w = (Inr (), w')
           \<and> files w' output_file = Some (jsonl_text L outs)
           \<and> files w' input_file = Some body"
proof -
  define w1 where "w1 = w\<lparr>files := (files w)(output_file \<mapsto> [])\<rparr>"
  have ow: "open_write w output_file = Inr w1"
    using out by (simp add: open_write_def w1_def)
  have t1: "file_text w1 input_file = body"
    using inp ne by (simp add: w1_def file_text_def)
  have o1: "files w1 output_file = Some []" "file_text w1 output_file = []"
    by (simp_all add: w1_def file_text_def)
  from transform_lines_ok[OF errs tr, of output_file w1] obtain w2 where
    run: "transform_lines L tr output_file (iter_lines body) w1 = (Inr (), w2)"
    and wr: "file_text w2 output_file = file_text w1 output_file @ jsonl_text L outs"
    and oth: "\<forall>q. q \<noteq> output_file \<longrightarrow> files w2 q = files w1 q"
    and ex: "files w1 output_file \<noteq> None \<longrightarrow> files w2 output_file \<noteq> None"
    by blast
  from ex o1 obtain x where x: "files w2 output_file = Some x" by auto
  with wr o1 have "files w2 output_file = Some (jsonl_text L outs)"
    by (simp add: file_text_def)
  moreover from oth ne inp have "files w2 input_file = Some body"
    by (simp add: w1_def)
  ultimately show ?thesis
    using inp ow t1 run by (simp add: transform_file_def files_py_print)
qed

lemma dicts_transformed:
  assumes "\<And>v. is_dict v \<Longrightarrow> \<exists>t. tr v = Inr t" "\<forall>v \<in> set vs. is_dict v"
  shows "\<exists>outs. map tr vs = map Inr outs"
  using assms(2)
proof (induction vs)
  case Nil
  then show ?case by simp
next
  case (Cons v vs)
  then obtain outs where "map tr vs = map Inr outs" by auto
  moreover from Cons.prems assms(1) obtain t where "tr v = Inr t" by auto
  ultimately have "map tr (v # vs) = map Inr (t # outs)" by simp
  then show ?case by blast
qed

lemma transform_file_dicts:
  assumes inp: "files w input_file = Some body"
      and out: "writable w output_file"
      and ne: "input_file \<noteq> output_file"
      and dict: "\<And>v. is_dict v \<Longrightarrow> \<exists>t. tr v = Inr t"
      and errs: "\<forall>e \<in> set (load_errors L (iter_lines body)). e = JSONDecodeError"
      and all: "\<forall>v \<in> set (parsed_lines L (iter_lines body)). is_dict v"
  shows "\<exists>outs w'. transform_file L tr input_file output_file w = (Inr (), w')
           \<and> map tr (parsed_lines L (iter_lines body)) = map Inr outs
           \<and> files w' output_file = Some (jsonl_text L outs)
           \<and> length outs \<le> length (nonblank_lines body)"
proof -
  from dicts_transformed[of tr, OF dict all] obtain outs where
    outs: "map tr (parsed_lines L (iter_lines body)) = map Inr outs" by blast
  then have "length outs = length (parsed_lines L (iter_lines body))"
    by (metis length_map)
  then have "length outs \<le> length (nonblank_lines body)"
    using length_parsed_lines[of L "iter_lines body"] by (simp add: nonblank_lines_def)
  with transform_file_ok[OF inp out ne errs outs] outs show ?thesis by blast
qed

lemma transform_file_fst:
  assumes inp: "files w input_file = Some body"
      and out: "writable w output_file"
      and ne: "input_file \<noteq> output_file"
  shows "fst (transform_file L tr input_file output_file w)
           = fst (transform_lines L tr output_file (iter_lines body)
                    (w\<lparr>files := (files w)(output_file \<mapsto> [])\<rparr>))"
proof -
  define w1 where "w1 = w\<lparr>files := (files w)(output_file \<mapsto> [])\<rparr>"
  have ow: "open_write w output_file = Inr w1"
    using out by (simp add: open_write_def w1_def)
  have t1: "file_text w1 input_file = body"
    using inp ne by (simp add: w1_def file_text_def)
  obtain r w2 where run: "transform_lines L tr output_file (iter_lines body) w1 = (r, w2)"
    by (cases "transform_lines L tr output_file (iter_lines body) w1")
  show ?thesis
    using inp ow t1 run unfolding w1_def[symmetric]
    by (cases r) (simp_all add: transform_file_def)
qed

lemma transform_file_abort:
  assumes inp: "files w input_file = Some body"
      and out: "writable w output_file"
      and ne: "input_file \<noteq> output_file"
      and dict: "\<And>v. is_dict v \<Longrightarrow> \<exists>t. tr v = Inr t"
      and other: "\<And>v. \<not> is_dict v \<Longrightarrow> tr v = Inl AttributeError"
      and bad: "\<exists>v \<in> set (parsed_lines L (iter_lines body)). \<not> is_dict v"
  shows "\<exists>e. fst (transform_file L tr input_file output_file w) = Inl e
           \<and> (e = AttributeError
               \<or> e \<noteq> JSONDecodeError \<and> e \<in> set (load_errors L (iter_lines body)))"
    and "\<forall>e \<in> set (load_errors L (iter_lines body)). e = JSONDecodeError \<Longrightarrow>
         fst (transform_file L tr input_file output_file w) = Inl AttributeError"
proof -
  let ?w1 = "w\<lparr>files := (files w)(output_file \<mapsto> [])\<rparr>"
  note c = transform_lines_fst[of tr L output_file "iter_lines body" ?w1, OF dict other]
  note f = transform_file_fst[OF inp out ne, of L tr]
  from c bad show "\<exists>e. fst (transform_file L tr input_file output_file w) = Inl e
           \<and> (e = AttributeError
               \<or> e \<noteq> JSONDecodeError \<and> e \<in> set (load_errors L (iter_lines body)))"
    unfolding f by blast
  from c bad show "fst (transform_file L tr input_file output_file w) = Inl AttributeError"
    if "\<forall>e \<in> set (load_errors L (iter_lines body)). e = JSONDecodeError"
    using that unfolding f by blast
qed

lemma parsed_lines_mem:
  "raw \<in> set raws \<Longrightarrow> strip raw \<noteq> [] \<Longrightarrow> json_loads L (strip raw) = Inr v
     \<Longrightarrow> v \<in> set (parsed_lines L raws)"
  by (induction raws) (auto simp: parsed_lines_Nil parsed_lines_Cons split: sum.split)

lemma parsed_lines_nonblank:
  "parsed_lines L (iter_lines body) =
     map (\<lambda>raw. projr (json_loads L (strip raw)))
       (filter (\<lambda>raw. \<not> rejected_line L raw) (nonblank_lines body))"
  by (simp add: parsed_lines_filter nonblank_lines_def rejected_line_def cong: conj_cong)

lemma sample_lib_sel:
  "json_loads sample_lib = sample_loads"
  "json_dumps sample_lib = sample_dumps"
  by (simp_all add: sample_lib_def)

lemma sample_random_sel:
  "seed_state sample_random seed = nat \<bar>seed\<bar>"
  "randbelow sample_random n g = (g mod n, (1103515245 * g + 12345) mod 2147483648)"
  by (simp_all add: sample_random_def)

lemmas sample_eval =
  sample_world_def sample_lib_sel sample_loads_def strip_def py_isspace_def
  parsed_lines_Nil parsed_lines_Cons load_errors_Nil load_errors_Cons is_dict_def

text \<open>A line of 4301 digits: valid JSON on which the sample parser raises \<open>ValueError\<close>.\<close>

lemma dropWhile_replicate:
  "\<not> P c \<Longrightarrow> dropWhile P (replicate n c @ xs) = replicate n c @ (if n = 0 then dropWhile P xs else xs)"
  by (cases n) simp_all

lemma strip_digit_line:
  "0 < n \<Longrightarrow> strip (replicate n (CHR ''1'') @ [newline]) = replicate n (CHR ''1'')"
proof -
  assume n: "0 < n"
  have ns: "\<not> py_isspace (CHR ''1'')"
    by (simp add: py_isspace_def)
  have sp: "py_isspace newline"
    by (simp add: py_isspace_def)
  have "dropWhile py_isspace (replicate n (CHR ''1'') @ [newline]) = replicate n (CHR ''1'') @ [newline]"
    using ns n by (simp add: dropWhile_replicate)
  moreover have "dropWhile py_isspace (newline # replicate n (CHR ''1'')) = replicate n (CHR ''1'')"
    using ns n sp dropWhile_replicate[of py_isspace "CHR ''1''" n "[]"] by simp
  ultimately show ?thesis
    by (simp add: strip_def)
qed

lemma iter_lines_digit_line:
  "0 < n \<Longrightarrow> iter_lines (replicate n (CHR ''1'') @ [newline]) = [replicate n (CHR ''1'') @ [newline]]"
proof (induction n)
  case 0
  then show ?case by simp
next
  case (Suc n)
  then show ?case by (cases "n = 0") simp_all
qed

lemma sample_loads_digit_line:
  "4300 < n \<Longrightarrow> sample_loads (replicate n (CHR ''1'')) = Inl ValueError"
  by (simp add: sample_loads_def list_all_iff is_digit_def)

lemma sample_huge_integer:
  "iter_lines (replicate 4301 (CHR ''1'') @ [newline]) = [replicate 4301 (CHR ''1'') @ [newline]]"
  "strip (replicate 4301 (CHR ''1'') @ [newline]) = replicate 4301 (CHR ''1'')"
  "replicate 4301 (CHR ''1'') \<noteq> []"
  "json_loads sample_lib (replicate 4301 (CHR ''1'')) = Inl ValueError"
  by (simp_all add: iter_lines_digit_line strip_digit_line sample_loads_digit_line sample_lib_sel)

text \<open>
  C6 (as amended). Take an input file on which \<open>json.loads\<close> raises nothing but
  \<open>json.JSONDecodeError\<close> and in which every non-blank line that parses is a JSON
  object (the file readable, the output path writable and another path than the input).
  Then each of the two transformers completes successfully; blank lines and lines that
  are not valid JSON produce no output line; and the output file consists, in input
  order, of exactly the transformations of the non-blank lines that parsed, one per
  line. So the number of output lines is the number of valid non-blank lines, which is
  at most the number of non-blank lines.
\<close>

theorem transform_file_skips_keeps_order:
  assumes "files w input_file = Some body"
      and "writable w output_file"
      and "input_file \<noteq> output_file"
      and "\<forall>e \<in> set (load_errors L (iter_lines body)). e = JSONDecodeError"
      and "\<forall>v \<in> set (parsed_lines L (iter_lines body)). is_dict v"
  shows "(\<exists>outs w'. conv_transform_file L input_file output_file w = (Inr (), w')
            \<and> map (conv_transform_example L) (parsed_lines L (iter_lines body)) = map Inr outs
            \<and> files w' output_file = Some (jsonl_text L outs)
            \<and> length outs \<le> length (nonblank_lines body))
       \<and> (\<exists>outs w'. std_transform_file L input_file output_file w = (Inr (), w')
            \<and> map (std_transform_example L) (parsed_lines L (iter_lines body)) = map Inr outs
            \<and> files w' output_file = Some (jsonl_text L outs)
            \<and> length outs \<le> length (nonblank_lines body))
       \<and> parsed_lines L (iter_lines body) =
           map (\<lambda>raw. projr (json_loads L (strip raw)))
             (filter (\<lambda>raw. \<not> rejected_line L raw) (nonblank_lines body))"
proof -
  have "\<exists>outs w'. transform_file L (conv_transform_example L) input_file output_file w = (Inr (), w')
            \<and> map (conv_transform_example L) (parsed_lines L (iter_lines body)) = map Inr outs
            \<and> files w' output_file = Some (jsonl_text L outs)
            \<and> length outs \<le> length (nonblank_lines body)"
    using assms by (intro transform_file_dicts transform_example_dict_ok)
  moreover
  have "\<exists>outs w'. transform_file L (std_transform_example L) input_file output_file w = (Inr (), w')
            \<and> map (std_transform_example L) (parsed_lines L (iter_lines body)) = map Inr outs
            \<and> files w' output_file = Some (jsonl_text L outs)
            \<and> length outs \<le> length (nonblank_lines body)"
    using assms by (intro transform_file_dicts transform_example_dict_ok)
  ultimately show ?thesis
    unfolding conv_transform_file_def std_transform_file_def
    using parsed_lines_nonblank[of L body] by blast
qed

theorem transform_file_skips_keeps_order_witness:
  "parsed_lines sample_lib (iter_lines (''{}'' @ [newline] @ [newline] @ ''oops'' @ [newline] @ '' {} '' @ [newline])) = [JObj [], JObj []]
   \<and> load_errors sample_lib (iter_lines (''{}'' @ [newline] @ [newline] @ ''oops'' @ [newline] @ '' {} '' @ [newline])) = [JSONDecodeError]
   \<and> ((\<exists>outs w'. conv_transform_file sample_lib ''in.jsonl'' ''out.jsonl'' (sample_world (''{}'' @ [newline] @ [newline] @ ''oops'' @ [newline] @ '' {} '' @ [newline])) = (Inr (), w')
            \<and> map (conv_transform_example sample_lib) (parsed_lines sample_lib (iter_lines (''{}'' @ [newline] @ [newline] @ ''oops'' @ [newline] @ '' {} '' @ [newline]))) = map Inr outs
            \<and> files w' ''out.jsonl'' = Some (jsonl_text sample_lib outs)
            \<and> length outs \<le> length (nonblank_lines (''{}'' @ [newline] @ [newline] @ ''oops'' @ [newline] @ '' {} '' @ [newline])))
       \<and> (\<exists>outs w'. std_transform_file sample_lib ''in.jsonl'' ''out.jsonl'' (sample_world (''{}'' @ [newline] @ [newline] @ ''oops'' @ [newline] @ '' {} '' @ [newline])) = (Inr (), w')
            \<and> map (std_transform_example sample_lib) (parsed_lines sample_lib (iter_lines (''{}'' @ [newline] @ [newline] @ ''oops'' @ [newline] @ '' {} '' @ [newline]))) = map Inr outs
            \<and> files w' ''out.jsonl'' = Some (jsonl_text sample_lib outs)
            \<and> length outs \<le> length (nonblank_lines (''{}'' @ [newline] @ [newline] @ ''oops'' @ [newline] @ '' {} '' @ [newline])))
       \<and> parsed_lines sample_lib (iter_lines (''{}'' @ [newline] @ [newline] @ ''oops'' @ [newline] @ '' {} '' @ [newline])) =
           map (\<lambda>raw. projr (json_loads sample_lib (strip raw)))
             (filter (\<lambda>raw. \<not> rejected_line sample_lib raw) (nonblank_lines (''{}'' @ [newline] @ [newline] @ ''oops'' @ [newline] @ '' {} '' @ [newline]))))"
proof -
  let ?t = "(''{}'' @ [newline] @ [newline] @ ''oops'' @ [newline] @ '' {} '' @ [newline])"
  have p: "parsed_lines sample_lib (iter_lines ?t) = [JObj [], JObj []]"
    by (simp add: sample_eval)
  have le: "load_errors sample_lib (iter_lines ?t) = [JSONDecodeError]"
    by (simp add: sample_eval)
  have h1: "files (sample_world ?t) ''in.jsonl'' = Some ?t"
    by (simp add: sample_world_def)
  have h2: "writable (sample_world ?t) ''out.jsonl''"
    by (simp add: sample_world_def)
  have h3: "''in.jsonl'' \<noteq> ''out.jsonl''"
    by simp
  have h4: "\<forall>e \<in> set (load_errors sample_lib (iter_lines ?t)). e = JSONDecodeError"
    unfolding le by simp
  have h5: "\<forall>v \<in> set (parsed_lines sample_lib (iter_lines ?t)). is_dict v"
    unfolding p by (simp add: is_dict_def)
  show ?thesis
    by (rule conjI[OF p conjI[OF le transform_file_skips_keeps_order[OF h1 h2 h3 h4 h5]]])
qed

theorem transform_file_number_line_aborts:
  "json_loads sample_lib (strip (''5'' @ [newline])) = Inr (JInt 5)
   \<and> fst (conv_transform_file sample_lib ''in.jsonl'' ''out.jsonl'' (sample_world (''5'' @ [newline])))
       = Inl AttributeError
   \<and> fst (std_transform_file sample_lib ''in.jsonl'' ''out.jsonl'' (sample_world (''5'' @ [newline])))
       = Inl AttributeError"
  by (simp add: conv_transform_file_def std_transform_file_def transform_file_def open_write_def
        file_text_def conv_transform_example_def std_transform_example_def sample_eval)

text \<open>
  A line that is valid JSON can also end the run inside \<open>json.loads\<close>: on a line of
  4301 digits the sample parser raises \<open>ValueError\<close>, which the \<open>except\<close> clause does
  not catch.
\<close>

lemma transform_file_huge_integer_aborts:
  "fst (conv_transform_file sample_lib ''in.jsonl'' ''out.jsonl''
          (sample_world (replicate 4301 (CHR ''1'') @ [newline])))
     = Inl ValueError"
  "fst (std_transform_file sample_lib ''in.jsonl'' ''out.jsonl''
          (sample_world (replicate 4301 (CHR ''1'') @ [newline])))
     = Inl ValueError"
  by (simp_all add: conv_transform_file_def std_transform_file_def transform_file_def open_write_def
        file_text_def sample_world_def sample_huge_integer)

text \<open>
  C10. When a non-blank line of the input is valid JSON but not a JSON object, neither
  transformer skips it: the record transformation is applied to the value, its field
  lookup raises \<open>AttributeError\<close>, nothing catches it, and the run ends with an
  uncaught error (the file readable, the output path writable and another path than the
  input). The error is that \<open>AttributeError\<close>, unless an earlier line made
  \<open>json.loads\<close> raise something other than a decode error, which ends the run first.
\<close>

theorem transform_file_non_object_aborts:
  assumes "files w input_file = Some body"
      and "writable w output_file"
      and "input_file \<noteq> output_file"
      and "raw \<in> set (iter_lines body)"
      and "strip raw \<noteq> []"
      and "json_loads L (strip raw) = Inr v"
      and "\<not> is_dict v"
  shows "conv_transform_example L v = Inl AttributeError
       \<and> std_transform_example L v = Inl AttributeError
       \<and> (\<exists>e. fst (conv_transform_file L input_file output_file w) = Inl e
              \<and> (e = AttributeError
                  \<or> e \<noteq> JSONDecodeError \<and> e \<in> set (load_errors L (iter_lines body))))
       \<and> (\<exists>e. fst (std_transform_file L input_file output_file w) = Inl e
              \<and> (e = AttributeError
                  \<or> e \<noteq> JSONDecodeError \<and> e \<in> set (load_errors L (iter_lines body))))
       \<and> ((\<forall>e \<in> set (load_errors L (iter_lines body)). e = JSONDecodeError) \<longrightarrow>
              fst (conv_transform_file L input_file output_file w) = Inl AttributeError
            \<and> fst (std_transform_file L input_file output_file w) = Inl AttributeError)"
proof -
  from assms(4-7) have bad: "\<exists>v \<in> set (parsed_lines L (iter_lines body)). \<not> is_dict v"
    using parsed_lines_mem by blast
  note c = transform_file_abort[of w input_file body output_file "conv_transform_example L" L,
      OF assms(1-3) transform_example_dict_ok(1) transform_example_other(1) bad]
  note s = transform_file_abort[of w input_file body output_file "std_transform_example L" L,
      OF assms(1-3) transform_example_dict_ok(2) transform_example_other(2) bad]
  from c s assms(7) show ?thesis
    by (simp add: conv_transform_file_def std_transform_file_def transform_example_other)
qed

theorem transform_file_non_object_aborts_witness:
  "fst (conv_transform_file sample_lib ''in.jsonl'' ''out.jsonl''
          (sample_world (''{}'' @ [newline] @ ''[]'' @ [newline] @ ''{}'' @ [newline])))
     = Inl AttributeError
   \<and> fst (std_transform_file sample_lib ''in.jsonl'' ''out.jsonl''
          (sample_world (''{}'' @ [newline] @ ''[]'' @ [newline] @ ''{}'' @ [newline])))
     = Inl AttributeError
   \<and> conv_transform_example sample_lib (JArr []) = Inl AttributeError
   \<and> std_transform_example sample_lib (JArr []) = Inl AttributeError
   \<and> load_errors sample_lib (iter_lines (''{}'' @ [newline] @ ''[]'' @ [newline] @ ''{}'' @ [newline])) = []"
proof -
  let ?t = "''{}'' @ [newline] @ ''[]'' @ [newline] @ ''{}'' @ [newline]"
  have h1: "files (sample_world ?t) ''in.jsonl'' = Some ?t"
    by (simp add: sample_world_def)
  have h2: "writable (sample_world ?t) ''out.jsonl''"
    by (simp add: sample_world_def)
  have h3: "''in.jsonl'' \<noteq> ''out.jsonl''"
    by simp
  have h4: "''[]'' @ [newline] \<in> set (iter_lines ?t)"
    by simp
  have h5: "strip (''[]'' @ [newline]) \<noteq> []"
    by (simp add: strip_def py_isspace_def)
  have h6: "json_loads sample_lib (strip (''[]'' @ [newline])) = Inr (JArr [])"
    by (simp add: sample_eval)
  have h7: "\<not> is_dict (JArr [])"
    by (simp add: is_dict_def)
  have le: "load_errors sample_lib (iter_lines ?t) = []"
    by (simp add: sample_eval)
  from transform_file_non_object_aborts[OF h1 h2 h3 h4 h5 h6 h7] le show ?thesis
    by simp
qed

subsection \<open>The splitter: reading and parsing\<close>

lemma loads_all_lines:
  "loads_all L (map strip (filter (\<lambda>line. strip line \<noteq> []) raws)) =
     (case load_errors L raws of
        [] \<Rightarrow> Inr (parsed_lines L raws)
      | e # es \<Rightarrow> Inl e)"
proof (induction raws)
  case Nil
  then show ?case by (simp add: parsed_lines_Nil load_errors_Nil)
next
  case (Cons raw rest)
  show ?case
  proof (cases "strip raw = []")
    case True
    with Cons show ?thesis
      by (simp add: parsed_lines_Cons load_errors_Cons split: list.split)
  next
    case nb: False
    show ?thesis
    proof (cases "json_loads L (strip raw)")
      case (Inl e)
      with nb show ?thesis by (simp add: parsed_lines_Cons load_errors_Cons)
    next
      case (Inr v)
      with nb Cons show ?thesis
        by (simp add: parsed_lines_Cons load_errors_Cons split: list.split)
    qed
  qed
qed

lemma read_dataset_eq:
  "read_dataset L body =
     (case load_errors L (iter_lines body) of
        [] \<Rightarrow> Inr (parsed_lines L (iter_lines body))
      | e # es \<Rightarrow> Inl e)"
  by (simp add: read_dataset_def loads_all_lines)

lemma read_dataset_ok:
  assumes "\<not> (\<exists>raw \<in> set (iter_lines body). rejected_line L raw)"
  shows "read_dataset L body = Inr (parsed_lines L (iter_lines body))"
proof -
  from assms have "load_errors L (iter_lines body) = []"
    by (simp add: load_errors_empty_iff)
  then show ?thesis by (simp add: read_dataset_eq)
qed

lemma read_dataset_fail:
  assumes "load_errors L (iter_lines body) \<noteq> []"
  shows "read_dataset L body = Inl (hd (load_errors L (iter_lines body)))"
  using assms by (cases "load_errors L (iter_lines body)") (simp_all add: read_dataset_eq)

lemma shuffle_from_Inl: "shuffle_from R k x g = Inl e \<Longrightarrow> e = IndexError"
  by (induction k arbitrary: x g) (auto simp: Let_def split: prod.splits if_splits)

lemma split_data_Inl: "split_data R data0 r seed = Inl e \<Longrightarrow> e \<noteq> JSONDecodeError \<and> e \<noteq> OSError"
  by (auto simp: split_data_def shuffle_def float_of_nat_def py_int_def Let_def
        split: sum.splits prod.splits pyfloat.splits dest: shuffle_from_Inl)

lemma write_jsonl_Inl: "write_jsonl L d p w = (Inl e, w') \<Longrightarrow> e = OSError \<and> w' = w \<and> \<not> writable w p"
  by (auto simp: write_jsonl_def open_write_def split: if_splits)

lemma split_jsonl_parse_failure:
  assumes "files w input_file = Some body" "read_dataset L body = Inl e"
  shows "split_jsonl L R input_file train_file test_file test_ratio seed w = (Inl e, w)"
  using assms by (simp add: split_jsonl_def)

lemma split_jsonl_parsed:
  assumes "files w input_file = Some body" "read_dataset L body = Inr data0"
  shows "fst (split_jsonl L R input_file train_file test_file test_ratio seed w) \<noteq> Inl JSONDecodeError"
  using assms
  by (auto simp: split_jsonl_def split: sum.splits prod.splits dest: split_data_Inl write_jsonl_Inl)

lemma bitlen_eval:
  "bitlen 0 = 0"
  "bitlen (Suc 0) = Suc 0"
  "bitlen (numeral k) = Suc (bitlen (numeral k div 2))"
  by (simp_all add: bitlen.simps)

lemma digits_eval:
  "digits 0 = ''0''"
  "digits (Suc 0) = ''1''"
  "digits (numeral k) =
     (if numeral k < (10::nat) then [''0123456789'' ! numeral k]
      else digits (numeral k div 10) @ [''0123456789'' ! (numeral k mod 10)])"
  by (simp_all add: digits.simps)

lemmas float_eval =
  float_of_nat_def round_double_def round_shift_def bitlen_eval py_int_def trunc_mag_def Let_def

text \<open>
  C7. When \<open>json.loads\<close> fails on some non-blank line of the input, the splitter ends
  with the error of the first such line (the parse error \<open>json.JSONDecodeError\<close> when
  \<open>json.loads\<close> raises nothing else on the file) and leaves the world as it found it:
  neither the train file nor the test file is created or changed, since every line is
  parsed before either output file is opened.
\<close>

theorem split_jsonl_parse_error_writes_nothing:
  assumes "files w input_file = Some body"
      and "raw \<in> set (iter_lines body)"
      and "rejected_line L raw"
  shows "load_errors L (iter_lines body) \<noteq> []
       \<and> split_jsonl L R input_file train_file test_file test_ratio seed w
           = (Inl (hd (load_errors L (iter_lines body))), w)
       \<and> ((\<forall>e \<in> set (load_errors L (iter_lines body)). e = JSONDecodeError) \<longrightarrow>
            split_jsonl L R input_file train_file test_file test_ratio seed w
              = (Inl JSONDecodeError, w))"
proof -
  from assms(2,3) have ne: "load_errors L (iter_lines body) \<noteq> []"
    using load_errors_empty_iff by blast
  then have "read_dataset L body = Inl (hd (load_errors L (iter_lines body)))"
    by (rule read_dataset_fail)
  with assms(1)
  have r: "split_jsonl L R input_file train_file test_file test_ratio seed w
             = (Inl (hd (load_errors L (iter_lines body))), w)"
    by (rule split_jsonl_parse_failure)
  have "hd (load_errors L (iter_lines body)) = JSONDecodeError"
    if "\<forall>e \<in> set (load_errors L (iter_lines body)). e = JSONDecodeError"
    using that ne by (cases "load_errors L (iter_lines body)") simp_all
  with ne r show ?thesis by simp
qed

theorem split_jsonl_parse_error_writes_nothing_witness:
  "split_jsonl sample_lib sample_random ''in.jsonl'' ''train.jsonl'' ''test.jsonl'' default_test_ratio 42
     (sample_world (''{}'' @ [newline] @ ''oops'' @ [newline] @ ''5'' @ [newline]))
   = (Inl JSONDecodeError, sample_world (''{}'' @ [newline] @ ''oops'' @ [newline] @ ''5'' @ [newline]))
   \<and> files (sample_world (''{}'' @ [newline] @ ''oops'' @ [newline] @ ''5'' @ [newline])) ''train.jsonl'' = None
   \<and> files (sample_world (''{}'' @ [newline] @ ''oops'' @ [newline] @ ''5'' @ [newline])) ''test.jsonl'' = None
   \<and> load_errors sample_lib (iter_lines (''{}'' @ [newline] @ ''oops'' @ [newline] @ ''5'' @ [newline]))
       = [JSONDecodeError]"
proof -
  let ?t = "''{}'' @ [newline] @ ''oops'' @ [newline] @ ''5'' @ [newline]"
  have h1: "files (sample_world ?t) ''in.jsonl'' = Some ?t"
    by (simp add: sample_world_def)
  have h2: "''oops'' @ [newline] \<in> set (iter_lines ?t)"
    by simp
  have h3: "rejected_line sample_lib (''oops'' @ [newline])"
    by (simp add: rejected_line_def sample_eval)
  have le: "load_errors sample_lib (iter_lines ?t) = [JSONDecodeError]"
    by (simp add: sample_eval)
  from split_jsonl_parse_error_writes_nothing[OF h1 h2 h3, of sample_random] le show ?thesis
    by (simp add: sample_world_def)
qed

text \<open>
  The same on a line that is valid JSON but makes \<open>json.loads\<close> raise: the run ends
  with that exception and nothing is written.
\<close>

lemma split_jsonl_huge_integer_aborts:
  "split_jsonl sample_lib sample_random ''in.jsonl'' ''train.jsonl'' ''test.jsonl'' default_test_ratio 42
     (sample_world (replicate 4301 (CHR ''1'') @ [newline]))
   = (Inl ValueError, sample_world (replicate 4301 (CHR ''1'') @ [newline]))"
proof -
  have "read_dataset sample_lib (replicate 4301 (CHR ''1'') @ [newline]) = Inl ValueError"
    by (simp add: read_dataset_def sample_huge_integer)
  then show ?thesis
    by (intro split_jsonl_parse_failure) (simp_all add: sample_world_def)
qed

text \<open>
  C8 (as amended). The splitter fails at the first non-blank line on which
  \<open>json.loads\<close> raises, with the exception of that line, before anything is written;
  it ends with the parse error \<open>json.JSONDecodeError\<close> exactly when that is the
  exception of the first failing line. A line for which \<open>json.loads\<close> returns a value
  of any kind, an object or not, is accepted as a record: when no line fails, the
  dataset is the list of the values of all non-blank lines.
\<close>

theorem split_jsonl_parse_error_iff:
  assumes "files w input_file = Some body"
  shows "(fst (split_jsonl L R input_file train_file test_file test_ratio seed w) = Inl JSONDecodeError
            \<longleftrightarrow> (\<exists>es. load_errors L (iter_lines body) = JSONDecodeError # es))
       \<and> (load_errors L (iter_lines body) \<noteq> [] \<longrightarrow>
            split_jsonl L R input_file train_file test_file test_ratio seed w
              = (Inl (hd (load_errors L (iter_lines body))), w))
       \<and> (load_errors L (iter_lines body) = []
            \<longleftrightarrow> (\<forall>raw \<in> set (iter_lines body). \<not> rejected_line L raw))
       \<and> (load_errors L (iter_lines body) = [] \<longrightarrow>
            read_dataset L body = Inr (parsed_lines L (iter_lines body))
          \<and> parsed_lines L (iter_lines body)
              = map (\<lambda>raw. projr (json_loads L (strip raw))) (nonblank_lines body))"
proof (cases "load_errors L (iter_lines body)")
  case Nil
  then have rd: "read_dataset L body = Inr (parsed_lines L (iter_lines body))"
    by (simp add: read_dataset_eq)
  with assms have "fst (split_jsonl L R input_file train_file test_file test_ratio seed w) \<noteq> Inl JSONDecodeError"
    by (rule split_jsonl_parsed)
  moreover from Nil have all: "\<forall>raw \<in> set (iter_lines body). \<not> rejected_line L raw"
    by (simp add: load_errors_empty_iff)
  moreover have "filter (\<lambda>raw. \<not> rejected_line L raw) (nonblank_lines body) = nonblank_lines body"
    using all by (intro filter_True) (auto simp: nonblank_lines_def)
  then have "parsed_lines L (iter_lines body)
               = map (\<lambda>raw. projr (json_loads L (strip raw))) (nonblank_lines body)"
    by (simp add: parsed_lines_nonblank)
  ultimately show ?thesis
    using Nil rd by simp
next
  case (Cons e es)
  then have "read_dataset L body = Inl e"
    by (simp add: read_dataset_eq)
  with assms have "split_jsonl L R input_file train_file test_file test_ratio seed w = (Inl e, w)"
    by (rule split_jsonl_parse_failure)
  moreover from Cons have "\<not> (\<forall>raw \<in> set (iter_lines body). \<not> rejected_line L raw)"
    using load_errors_empty_iff[of L "iter_lines body"] by simp
  ultimately show ?thesis
    using Cons by auto
qed

theorem split_jsonl_parse_error_iff_witness:
  "fst (split_jsonl sample_lib sample_random ''in.jsonl'' ''train.jsonl'' ''test.jsonl'' default_test_ratio 42
          (sample_world (''{}'' @ [newline] @ ''oops'' @ [newline])))
     = Inl JSONDecodeError
   \<and> load_errors sample_lib (iter_lines (''{}'' @ [newline] @ ''oops'' @ [newline])) = [JSONDecodeError]
   \<and> fst (split_jsonl sample_lib sample_random ''in.jsonl'' ''train.jsonl'' ''test.jsonl'' default_test_ratio 42
          (sample_world (''{}'' @ [newline] @ ''[]'' @ [newline])))
     \<noteq> Inl JSONDecodeError
   \<and> load_errors sample_lib (iter_lines (''{}'' @ [newline] @ ''[]'' @ [newline])) = []
   \<and> read_dataset sample_lib (''{}'' @ [newline] @ ''[]'' @ [newline]) = Inr [JObj [], JArr []]
   \<and> split_jsonl sample_lib sample_random ''in.jsonl'' ''train.jsonl'' ''test.jsonl'' default_test_ratio 42
          (sample_world (replicate 4301 (CHR ''1'') @ [newline]))
     = (Inl ValueError, sample_world (replicate 4301 (CHR ''1'') @ [newline]))"
proof -
  let ?bad = "''{}'' @ [newline] @ ''oops'' @ [newline]"
  let ?good = "''{}'' @ [newline] @ ''[]'' @ [newline]"
  let ?huge = "replicate 4301 (CHR ''1'') @ [newline]"
  have b1: "files (sample_world ?bad) ''in.jsonl'' = Some ?bad"
    by (simp add: sample_world_def)
  have b2: "load_errors sample_lib (iter_lines ?bad) = [JSONDecodeError]"
    by (simp add: sample_eval)
  have g1: "files (sample_world ?good) ''in.jsonl'' = Some ?good"
    by (simp add: sample_world_def)
  have g2: "load_errors sample_lib (iter_lines ?good) = []"
    by (simp add: sample_eval)
  have g3: "parsed_lines sample_lib (iter_lines ?good) = [JObj [], JArr []]"
    by (simp add: sample_eval)
  have u1: "files (sample_world ?huge) ''in.jsonl'' = Some ?huge"
    by (simp add: sample_world_def)
  have u2: "load_errors sample_lib (iter_lines ?huge) = [ValueError]"
    by (simp add: sample_huge_integer load_errors_Cons load_errors_Nil)
  from split_jsonl_parse_error_iff[OF b1, of sample_lib sample_random] b2
  have r1: "fst (split_jsonl sample_lib sample_random ''in.jsonl'' ''train.jsonl'' ''test.jsonl''
                   default_test_ratio 42 (sample_world ?bad)) = Inl JSONDecodeError"
    by simp
  from split_jsonl_parse_error_iff[OF g1, of sample_lib sample_random] g2 g3
  have r2: "fst (split_jsonl sample_lib sample_random ''in.jsonl'' ''train.jsonl'' ''test.jsonl''
                   default_test_ratio 42 (sample_world ?good)) \<noteq> Inl JSONDecodeError"
    and r3: "read_dataset sample_lib ?good = Inr [JObj [], JArr []]"
    by simp_all
  from split_jsonl_parse_error_iff[OF u1, of sample_lib sample_random] u2
  have r4: "split_jsonl sample_lib sample_random ''in.jsonl'' ''train.jsonl'' ''test.jsonl''
              default_test_ratio 42 (sample_world ?huge) = (Inl ValueError, sample_world ?huge)"
    by simp
  from r1 b2 r2 g2 r3 r4 show ?thesis
    by (intro conjI)
qed

theorem split_jsonl_accepts_number_line:
  "json_loads sample_lib (strip (''5'' @ [newline])) = Inr (JInt 5)
   \<and> \<not> is_dict (JInt 5)
   \<and> fst (split_jsonl sample_lib sample_random ''in.jsonl'' ''train.jsonl'' ''test.jsonl'' default_test_ratio 42
          (sample_world (''5'' @ [newline])))
     = Inr ()
   \<and> files (snd (split_jsonl sample_lib sample_random ''in.jsonl'' ''train.jsonl'' ''test.jsonl'' default_test_ratio 42
          (sample_world (''5'' @ [newline])))) ''train.jsonl''
     = Some (''5'' @ [newline])"
proof -
  have rd: "read_dataset sample_lib (''5'' @ [newline]) = Inr [JInt 5]"
    by (simp add: read_dataset_def sample_eval)
  have sd: "split_data sample_random [JInt 5] default_test_ratio 42 = Inr (1, [JInt 5], [])"
    by (simp add: split_data_def shuffle_def sample_random_sel default_test_ratio_def float_eval
          slice_to_def slice_from_def)
  show ?thesis
    by (simp add: split_jsonl_def rd[simplified] sd write_jsonl_def open_write_def file_write_def
          file_text_def py_print_def str_int_def digits_eval sample_eval)
qed

subsection \<open>The shuffle rearranges the list\<close>

lemma shuffle_from_perm:
  "k \<le> length x - 1 \<Longrightarrow> shuffle_from R k x g = Inr (y, g') \<Longrightarrow> mset y = mset x"
proof (induction k arbitrary: x g)
  case 0
  then show ?case by simp
next
  case (Suc k)
  obtain j g1 where rb: "randbelow R (Suc k + 1) g = (j, g1)"
    by (cases "randbelow R (Suc k + 1) g")
  from Suc.prems(2) rb have j: "j < length x"
    by (auto split: if_splits)
  from Suc.prems(1) have i: "Suc k < length x"
    by simp
  let ?x = "x[Suc k := x ! j, j := x ! Suc k]"
  from Suc.prems(2) rb j have "shuffle_from R k ?x g1 = Inr (y, g')"
    by simp
  moreover have "k \<le> length ?x - 1"
    using i by simp
  ultimately have "mset y = mset ?x"
    by (rule Suc.IH[rotated])
  also have "mset ?x = mset x"
    using i j by (rule mset_swap[rotated])
  finally show ?case .
qed

lemma shuffle_from_map:
  "k \<le> length x - 1 \<Longrightarrow>
   shuffle_from R k (map f x) g = map_sum id (map_prod (map f) id) (shuffle_from R k x g)"
proof (induction k arbitrary: x g)
  case 0
  then show ?case by simp
next
  case (Suc k)
  obtain j g1 where rb: "randbelow R (Suc k + 1) g = (j, g1)"
    by (cases "randbelow R (Suc k + 1) g")
  from Suc.prems have i: "Suc k < length x"
    by simp
  show ?case
  proof (cases "j < length x")
    case True
    let ?x = "x[Suc k := x ! j, j := x ! Suc k]"
    have "k \<le> length ?x - 1"
      using i by simp
    from Suc.IH[OF this, of g1] True i rb show ?thesis
      by (simp add: map_update)
  next
    case False
    with rb show ?thesis by simp
  qed
qed

lemma shuffle_from_total:
  "rng_in_range R \<Longrightarrow> k \<le> length x - 1 \<Longrightarrow> \<exists>y g'. shuffle_from R k x g = Inr (y, g')"
proof (induction k arbitrary: x g)
  case 0
  then show ?case by simp
next
  case (Suc k)
  obtain j g1 where rb: "randbelow R (Suc k + 1) g = (j, g1)"
    by (cases "randbelow R (Suc k + 1) g")
  from Suc.prems(1) have "fst (randbelow R (Suc k + 1) g) < Suc k + 1"
    unfolding rng_in_range_def by blast
  with rb Suc.prems(2) have j: "j < length x"
    by simp
  let ?x = "x[Suc k := x ! j, j := x ! Suc k]"
  have "k \<le> length ?x - 1"
    using Suc.prems(2) by simp
  from Suc.IH[OF Suc.prems(1) this, of g1] rb j show ?case
    by simp
qed

lemma shuffle_perm: "shuffle R x g = Inr (y, g') \<Longrightarrow> mset y = mset x"
  using shuffle_from_perm[of "length x - 1" x R g y g'] by (simp add: shuffle_def)

lemma shuffle_total: "rng_in_range R \<Longrightarrow> \<exists>y g'. shuffle R x g = Inr (y, g')"
  unfolding shuffle_def by (rule shuffle_from_total) simp_all

lemma shuffle_Nil: "shuffle R [] g = Inr ([], g)"
  by (simp add: shuffle_def)

lemma shuffle_positions:
  assumes "shuffle R x g = Inr (y, g')"
  shows "\<exists>p. mset p = mset [0..<length x] \<and> y = map (\<lambda>i. x ! i) p"
proof -
  let ?ix = "[0..<length x]"
  have x: "map (\<lambda>i. x ! i) ?ix = x"
    by (rule map_nth)
  have "shuffle_from R (length x - 1) (map (\<lambda>i. x ! i) ?ix) g
          = map_sum id (map_prod (map (\<lambda>i. x ! i)) id) (shuffle_from R (length x - 1) ?ix g)"
    by (rule shuffle_from_map) simp
  with assms x have eq: "map_sum id (map_prod (map (\<lambda>i. x ! i)) id) (shuffle_from R (length x - 1) ?ix g) = Inr (y, g')"
    by (simp add: shuffle_def)
  then obtain p g2 where p: "shuffle_from R (length x - 1) ?ix g = Inr (p, g2)"
    by (cases "shuffle_from R (length x - 1) ?ix g") auto
  with eq have y: "y = map (\<lambda>i. x ! i) p"
    by simp
  from p have "mset p = mset ?ix"
    by (rule shuffle_from_perm[rotated]) simp
  with y show ?thesis by blast
qed

subsection \<open>The float product\<close>

lemma bitlen_upper: "p < 2 ^ bitlen p"
proof (induction p rule: bitlen.induct)
  case (1 p)
  show ?case
  proof (cases "p = 0")
    case True
    then show ?thesis by (simp add: bitlen.simps)
  next
    case False
    with 1 have "p div 2 < 2 ^ bitlen (p div 2)" by simp
    then have "p < 2 * 2 ^ bitlen (p div 2)" by linarith
    with False show ?thesis by (simp add: bitlen.simps[of p])
  qed
qed

lemma bitlen_lower: "p \<noteq> 0 \<Longrightarrow> 2 ^ (bitlen p - 1) \<le> p"
proof (induction p rule: bitlen.induct)
  case (1 p)
  show ?case
  proof (cases "p div 2 = 0")
    case True
    with 1(2) have "p = 1" by linarith
    then show ?thesis by (simp add: bitlen.simps)
  next
    case False
    with 1 have ih: "2 ^ (bitlen (p div 2) - 1) \<le> p div 2" by simp
    from False have pos: "bitlen (p div 2) \<noteq> 0" by (simp add: bitlen.simps[of "p div 2"])
    have "bitlen p - 1 = Suc (bitlen (p div 2) - 1)"
      using 1(2) pos by (simp add: bitlen.simps[of p])
    then have "(2::nat) ^ (bitlen p - 1) = 2 * 2 ^ (bitlen (p div 2) - 1)" by simp
    also have "\<dots> \<le> 2 * (p div 2)" using ih by simp
    also have "\<dots> \<le> p" by simp
    finally show ?thesis .
  qed
qed

lemma bitlen_le: "p < 2 ^ k \<Longrightarrow> bitlen p \<le> k"
proof (rule ccontr)
  assume lt: "p < 2 ^ k" and "\<not> bitlen p \<le> k"
  then have k: "k \<le> bitlen p - 1" and nz: "p \<noteq> 0"
    by (auto simp: bitlen.simps[of p] split: if_splits)
  have "(2::nat) ^ k \<le> 2 ^ (bitlen p - 1)"
    using k by (rule power_increasing) simp
  also have "\<dots> \<le> p" using nz by (rule bitlen_lower)
  finally show False using lt by simp
qed

lemma round_shift_le: "p \<le> N * 2 ^ s \<Longrightarrow> round_shift p s \<le> N"
proof (cases "s = 0")
  case True
  then show "p \<le> N * 2 ^ s \<Longrightarrow> ?thesis" by (simp add: round_shift_def)
next
  case False
  assume le: "p \<le> N * 2 ^ s"
  have "p div 2 ^ s \<le> N * 2 ^ s div 2 ^ s"
    using le by (rule div_le_mono)
  then have q: "p div 2 ^ s \<le> N"
    by simp
  have up: "p mod 2 ^ s \<noteq> 0 \<Longrightarrow> p div 2 ^ s < N"
  proof (rule ccontr)
    assume r: "p mod 2 ^ s \<noteq> 0" and "\<not> p div 2 ^ s < N"
    with q have "p div 2 ^ s = N" by simp
    then have "p = N * 2 ^ s + p mod 2 ^ s"
      by (metis div_mult_mod_eq)
    with r le show False by simp
  qed
  have h: "(0::nat) < 2 ^ (s - 1)" by simp
  have up2: "\<not> p mod 2 ^ s < 2 ^ (s - 1) \<Longrightarrow> Suc (p div 2 ^ s) \<le> N"
  proof -
    assume "\<not> p mod 2 ^ s < 2 ^ (s - 1)"
    with h have "p mod 2 ^ s \<noteq> 0" by linarith
    then have "p div 2 ^ s < N" by (rule up)
    then show ?thesis by simp
  qed
  show ?thesis
    using q up2 False by (auto simp: round_shift_def Let_def)
qed

lemma round_shift_ge: "N * 2 ^ s \<le> p \<Longrightarrow> N \<le> round_shift p s"
proof -
  assume "N * 2 ^ s \<le> p"
  then have "N * 2 ^ s div 2 ^ s \<le> p div 2 ^ s" by (rule div_le_mono)
  then have "N \<le> p div 2 ^ s" by simp
  then show ?thesis by (auto simp: round_shift_def Let_def)
qed

lemma float_of_nat_small: "n < 2 ^ 53 \<Longrightarrow> float_of_nat n = Inr (Finite False n 0)"
proof -
  assume "n < 2 ^ 53"
  then have "bitlen n \<le> 53" by (rule bitlen_le)
  then show ?thesis
    by (simp add: float_of_nat_def round_double_def round_shift_def Let_def)
qed

lemma floor_trunc_mag: "\<lfloor>float_val (Finite False q e)\<rfloor> = int (trunc_mag q e)"
proof (cases "0 \<le> e")
  case True
  have "float_val (Finite False q e) = of_int (int (q * 2 ^ nat e))"
    using True by (simp add: float_val_def)
  then show ?thesis
    using True by (simp only: floor_of_int trunc_mag_def if_True)
next
  case False
  have "float_val (Finite False q e) = of_nat q / of_nat (2 ^ nat (- e))"
    using False by (simp add: float_val_def)
  then show ?thesis
    using False by (simp only: floor_divide_of_nat_eq trunc_mag_def if_False)
qed

lemma py_int_floor:
  "sg \<longrightarrow> q = 0 \<Longrightarrow> py_int (Finite sg q e) = Inr \<lfloor>float_val (Finite sg q e)\<rfloor>"
proof (cases sg)
  case False
  then show ?thesis by (simp add: py_int_def floor_trunc_mag)
next
  case True
  assume "sg \<longrightarrow> q = 0"
  with True have "q = 0" by simp
  with True show ?thesis by (simp add: py_int_def float_val_def trunc_mag_def)
qed

lemma of_nat_div_le_1: "0 < K \<Longrightarrow> (of_nat m / of_nat K :: rat) \<le> 1 \<longleftrightarrow> m \<le> K"
  by (simp add: divide_le_eq_1_pos)

lemma float_val_le_1:
  "float_val (Finite False m e) \<le> 1 \<longleftrightarrow> (if 0 \<le> e then m * 2 ^ nat e \<le> 1 else m \<le> 2 ^ nat (- e))"
proof (cases "0 \<le> e")
  case True
  have "float_val (Finite False m e) = of_nat (m * 2 ^ nat e)"
    using True by (simp add: float_val_def)
  moreover have "(of_nat (m * 2 ^ nat e) :: rat) \<le> 1 \<longleftrightarrow> m * 2 ^ nat e \<le> 1"
    by (metis of_nat_1 of_nat_le_iff)
  ultimately show ?thesis using True by simp
next
  case False
  have "float_val (Finite False m e) = of_nat m / of_nat (2 ^ nat (- e))"
    using False by (simp add: float_val_def)
  moreover have "(of_nat m / of_nat (2 ^ nat (- e)) :: rat) \<le> 1 \<longleftrightarrow> m \<le> 2 ^ nat (- e)"
    by (rule of_nat_div_le_1) simp
  ultimately show ?thesis using False by simp
qed

lemma float_val_nonneg:
  "0 \<le> float_val (Finite sg m e) \<longleftrightarrow> (sg \<longrightarrow> m = 0)"
proof -
  define c :: rat where "c = (if 0 \<le> e then 2 ^ nat e else 1 / 2 ^ nat (- e))"
  have c: "0 < c" by (simp add: c_def)
  have v: "float_val (Finite sg m e) = (if sg then - 1 else 1) * of_nat m * c"
    by (simp add: float_val_def c_def)
  show ?thesis
  proof (cases sg)
    case True
    have "0 \<le> - (of_nat m * c) \<longleftrightarrow> of_nat m * c \<le> 0" by simp
    also have "\<dots> \<longleftrightarrow> (of_nat m :: rat) \<le> 0" using c by (simp add: mult_le_0_iff)
    also have "\<dots> \<longleftrightarrow> m = 0" by simp
    finally show ?thesis using True v by simp
  next
    case False
    have "0 \<le> of_nat m * c" using c by simp
    with False v show ?thesis by simp
  qed
qed

lemma round_shift_zero: "round_shift 0 s = 0"
  by (simp add: round_shift_def)

lemma trunc_mag_neg: "trunc_mag q (- int k) = q div 2 ^ k"
proof (cases "k = 0")
  case True
  then show ?thesis by (simp add: trunc_mag_def)
next
  case False
  then have "\<not> 0 \<le> - int k" by simp
  moreover have "nat (- (- int k)) = k" by simp
  ultimately show ?thesis by (simp only: trunc_mag_def if_False)
qed

lemma round_double_scaled:
  assumes n: "n < 2 ^ 53" and m: "m \<le> 2 ^ j"
  shows "\<exists>q k. round_double sg (n * m) (- int j) = Finite sg q (- int k)
           \<and> q \<le> n * 2 ^ k \<and> (m = 2 ^ j \<longrightarrow> q = n * 2 ^ k) \<and> (m = 0 \<longrightarrow> q = 0)"
proof -
  define p where "p = n * m"
  define s where "s = nat (max (int (bitlen p) - 53) (- 1074 - (- int j)))"
  define q where "q = round_shift p s"
  have p_le: "p \<le> n * 2 ^ j"
    using m by (simp add: p_def)
  also have "\<dots> < 2 ^ 53 * 2 ^ j"
    using n by simp
  finally have "p < 2 ^ (53 + j)"
    by (simp add: power_add)
  then have "bitlen p \<le> 53 + j"
    by (rule bitlen_le)
  then have sj: "s \<le> j"
    by (simp add: s_def)
  define k where "k = j - s"
  have j: "j = k + s"
    using sj by (simp add: k_def)
  have e': "- int j + int s = - int k"
    using j by simp
  have "p \<le> (n * 2 ^ k) * 2 ^ s"
    using p_le by (simp add: j power_add mult.assoc)
  then have q_le: "q \<le> n * 2 ^ k"
    unfolding q_def by (rule round_shift_le)
  also have "\<dots> < 2 ^ 53 * 2 ^ k"
    using n by simp
  finally have "q < 2 ^ (53 + k)"
    by (simp add: power_add)
  then have "bitlen q \<le> 53 + k"
    by (rule bitlen_le)
  then have fin: "\<not> (q \<noteq> 0 \<and> int (bitlen q) + - int k > 1024)"
    by simp
  have "round_double sg p (- int j) =
          (if q \<noteq> 0 \<and> int (bitlen q) + (- int j + int s) > 1024 then Infinity sg
           else Finite sg q (- int j + int s))"
    by (simp only: round_double_def Let_def q_def s_def)
  also have "\<dots> = Finite sg q (- int k)"
    using fin by (simp only: e' if_False)
  finally have rd: "round_double sg (n * m) (- int j) = Finite sg q (- int k)"
    by (simp only: p_def)
  have eq: "q = n * 2 ^ k" if "m = 2 ^ j"
  proof -
    from that have "(n * 2 ^ k) * 2 ^ s \<le> p"
      by (simp add: p_def j power_add mult.assoc)
    then have "n * 2 ^ k \<le> q"
      unfolding q_def by (rule round_shift_ge)
    with q_le show ?thesis by simp
  qed
  have z: "q = 0" if "m = 0"
    using that by (simp add: q_def p_def round_shift_zero)
  from rd q_le eq z show ?thesis by blast
qed

lemma round_double_zero: "\<exists>e'. round_double sg 0 e = Finite sg 0 e'"
  by (simp add: round_double_def Let_def round_shift_zero)

lemma of_nat_div_eq_1: "0 < K \<Longrightarrow> (of_nat m / of_nat K :: rat) = 1 \<longleftrightarrow> m = K"
proof -
  assume "0 < K"
  then have "(of_nat K :: rat) \<noteq> 0" by simp
  then have "(of_nat m / of_nat K :: rat) = 1 \<longleftrightarrow> (of_nat m :: rat) = of_nat K"
    by (simp only: divide_eq_1_iff simp_thms)
  then show ?thesis by (simp only: of_nat_eq_iff)
qed

lemma float_val_eq_1:
  "float_val (Finite False m e) = 1 \<longleftrightarrow> (if 0 \<le> e then m * 2 ^ nat e = 1 else m = 2 ^ nat (- e))"
proof (cases "0 \<le> e")
  case True
  have "float_val (Finite False m e) = of_nat (m * 2 ^ nat e)"
    using True by (simp add: float_val_def)
  moreover have "(of_nat (m * 2 ^ nat e) :: rat) = 1 \<longleftrightarrow> m * 2 ^ nat e = 1"
    by (rule of_nat_eq_1_iff)
  ultimately show ?thesis using True by simp
next
  case False
  have "float_val (Finite False m e) = of_nat m / of_nat (2 ^ nat (- e))"
    using False by (simp add: float_val_def)
  moreover have "(of_nat m / of_nat (2 ^ nat (- e)) :: rat) = 1 \<longleftrightarrow> m = 2 ^ nat (- e)"
    by (rule of_nat_div_eq_1) simp
  ultimately show ?thesis using False by simp
qed

lemma float_val_eq_0: "float_val (Finite sg m e) = 0 \<longleftrightarrow> m = 0"
  by (simp add: float_val_def)

text \<open>The number of test records for a ratio between 0 and 1.\<close>

lemma fmul_count:
  assumes n: "n < 2 ^ 53"
      and lo: "0 \<le> float_val (Finite sg m e)"
      and hi: "float_val (Finite sg m e) \<le> 1"
  shows "\<exists>q e'. fmul (Finite False n 0) (Finite sg m e) = Finite sg q e'
           \<and> (sg \<longrightarrow> q = 0)
           \<and> trunc_mag q e' \<le> n
           \<and> (float_val (Finite sg m e) = 1 \<longrightarrow> trunc_mag q e' = n)
           \<and> (float_val (Finite sg m e) = 0 \<longrightarrow> q = 0)"
proof (cases "m = 0")
  case True
  from round_double_zero[of sg e] obtain e' where "round_double sg 0 e = Finite sg 0 e'"
    by blast
  with True show ?thesis
    by (auto simp: float_val_def trunc_mag_def)
next
  case False
  with lo have sg: "\<not> sg"
    by (simp add: float_val_nonneg)
  with hi have hi': "if 0 \<le> e then m * 2 ^ nat e \<le> 1 else m \<le> 2 ^ nat (- e)"
    by (simp add: float_val_le_1)
  have e: "e \<le> 0"
  proof (rule ccontr)
    assume "\<not> e \<le> 0"
    then have "0 \<le> e" "0 < nat e" by simp_all
    with hi' have m1: "m * 2 ^ nat e \<le> 1" by simp
    from \<open>0 < nat e\<close> obtain i where i: "nat e = Suc i"
      by (cases "nat e") simp_all
    from False have "1 \<le> m * 2 ^ i" by simp
    then have "2 \<le> m * 2 ^ nat e" by (simp add: i)
    with m1 show False by simp
  qed
  define j where "j = nat (- e)"
  have ej: "e = - int j"
    using e by (simp add: j_def)
  have mj: "m \<le> 2 ^ j"
    using hi' e by (cases "e = 0") (simp_all add: j_def)
  from round_double_scaled[OF n mj, of sg] obtain q k where
    rd: "round_double sg (n * m) (- int j) = Finite sg q (- int k)"
    and q: "q \<le> n * 2 ^ k" and eq: "m = 2 ^ j \<longrightarrow> q = n * 2 ^ k"
    by blast
  have t: "trunc_mag q (- int k) \<le> n"
  proof -
    have "q div 2 ^ k \<le> n * 2 ^ k div 2 ^ k"
      using q by (rule div_le_mono)
    then show ?thesis by (simp add: trunc_mag_neg)
  qed
  have one: "trunc_mag q (- int k) = n" if "float_val (Finite sg m e) = 1"
  proof -
    from that sg have "if 0 \<le> e then m * 2 ^ nat e = 1 else m = 2 ^ nat (- e)"
      by (simp add: float_val_eq_1)
    then have "m = 2 ^ j"
      using e by (cases "e = 0") (simp_all add: j_def)
    with eq have "q = n * 2 ^ k" by simp
    then show ?thesis by (simp add: trunc_mag_neg)
  qed
  from rd sg t one False show ?thesis
    by (auto simp: ej float_val_eq_0)
qed

text \<open>Without rounding the product is the exact one.\<close>

lemma fmul_exact:
  assumes "bitlen (n * m) \<le> 53" and "- 1074 \<le> e" and "e \<le> 0"
  shows "fmul (Finite False n 0) (Finite sg m e) = Finite sg (n * m) e"
    and "float_val (Finite sg (n * m) e) = of_nat n * float_val (Finite sg m e)"
proof -
  from assms(1,2) have s: "nat (max (int (bitlen (n * m)) - 53) (- 1074 - e)) = 0"
    by simp
  from assms(1,3) have "\<not> (n * m \<noteq> 0 \<and> 1024 < int (bitlen (n * m)) + e)"
    by simp
  then show "fmul (Finite False n 0) (Finite sg m e) = Finite sg (n * m) e"
    by (simp add: round_double_def Let_def s round_shift_def)
  show "float_val (Finite sg (n * m) e) = of_nat n * float_val (Finite sg m e)"
    by (simp add: float_val_def)
qed

lemma fmul_exact_product:
  assumes hi: "float_val (Finite sg m e) \<le> 1"
      and lo: "0 \<le> float_val (Finite sg m e)"
      and b: "bitlen (n * m) \<le> 53" and e: "- 1074 \<le> e"
  shows "float_val (fmul (Finite False n 0) (Finite sg m e)) = of_nat n * float_val (Finite sg m e)"
proof -
  from b e have s: "nat (max (int (bitlen (n * m)) - 53) (- 1074 - e)) = 0"
    by simp
  show ?thesis
  proof (cases "n * m = 0")
    case True
    from round_double_zero[of sg e] obtain e' where "round_double sg 0 e = Finite sg 0 e'"
      by blast
    with True have "float_val (fmul (Finite False n 0) (Finite sg m e)) = 0"
      by (auto simp: float_val_def)
    moreover from True have "of_nat n * float_val (Finite sg m e) = 0"
      by (auto simp: float_val_def)
    ultimately show ?thesis
      by simp
  next
    case False
    then have m0: "m \<noteq> 0" by simp
    with lo have sg: "\<not> sg"
      by (simp add: float_val_nonneg)
    with hi have hi': "if 0 \<le> e then m * 2 ^ nat e \<le> 1 else m \<le> 2 ^ nat (- e)"
      by (simp add: float_val_le_1)
    have e0: "e \<le> 0"
    proof (rule ccontr)
      assume "\<not> e \<le> 0"
      then have "0 \<le> e" "0 < nat e" by simp_all
      with hi' have m1: "m * 2 ^ nat e \<le> 1" by simp
      from \<open>0 < nat e\<close> obtain i where i: "nat e = Suc i"
        by (cases "nat e") simp_all
      from m0 have "1 \<le> m * 2 ^ i" by simp
      then have "2 \<le> m * 2 ^ nat e" by (simp add: i)
      with m1 show False by simp
    qed
    from fmul_exact[OF b e e0, of sg] show ?thesis
      by simp
  qed
qed

text \<open>Rounding to nearest moves a number by at most half a unit.\<close>

lemma round_shift_err: "0 < s \<Longrightarrow> round_shift p s * 2 ^ s \<le> p + 2 ^ (s - 1)"
proof -
  assume s: "0 < s"
  define q where "q = p div 2 ^ s"
  define r where "r = p mod 2 ^ s"
  define h :: nat where "h = 2 ^ (s - 1)"
  have p: "p = q * 2 ^ s + r"
    using div_mult_mod_eq[of p "2 ^ s"] by (simp only: q_def r_def)
  from s obtain i where i: "s = Suc i"
    by (cases s) simp_all
  have hh: "(2::nat) ^ s = 2 * h"
    by (simp add: h_def i)
  show ?thesis
  proof (cases "r < h \<or> (r = h \<and> even q)")
    case True
    with s have "round_shift p s = q"
      by (simp add: round_shift_def Let_def q_def r_def h_def)
    then show ?thesis
      by (simp add: p)
  next
    case False
    with s have rs: "round_shift p s = q + 1"
      by (simp add: round_shift_def Let_def q_def r_def h_def)
    from False have "h \<le> r"
      by auto
    then have "(q + 1) * 2 ^ s \<le> q * 2 ^ s + r + h"
      by (simp add: hh algebra_simps)
    then have "(q + 1) * 2 ^ s \<le> p + h"
      by (simp only: p[symmetric])
    then show ?thesis
      by (simp only: rs h_def)
  qed
qed

text \<open>
  Rounding follows the grid: a multiple of the unit at or below the exact value stays at
  or below the rounded one, and the same above. A rounded mantissa has 53 bits, unless
  the result is subnormal.
\<close>

lemma round_double_near:
  assumes n: "n < 2 ^ 53" and m: "m \<le> 2 ^ j"
  shows "\<exists>q k s. round_double sg (n * m) (- int j) = Finite sg q (- int k)
           \<and> j = k + s
           \<and> (\<forall>K. K * 2 ^ j \<le> n * m \<longrightarrow> K * 2 ^ k \<le> q)
           \<and> (\<forall>K. n * m \<le> K * 2 ^ j \<longrightarrow> q \<le> K * 2 ^ k)
           \<and> (q * 2 ^ s = n * m
              \<or> 0 < s \<and> q * 2 ^ s \<le> n * m + 2 ^ (s - 1)
                \<and> (2 ^ 52 \<le> q \<or> k = 1074 \<and> q \<le> 2 ^ 53))"
proof -
  define p where "p = n * m"
  define s where "s = nat (max (int (bitlen p) - 53) (- 1074 - (- int j)))"
  define q where "q = round_shift p s"
  have p_le: "p \<le> n * 2 ^ j"
    using m by (simp add: p_def)
  also have "\<dots> < 2 ^ 53 * 2 ^ j"
    using n by simp
  finally have "p < 2 ^ (53 + j)"
    by (simp add: power_add)
  then have "bitlen p \<le> 53 + j"
    by (rule bitlen_le)
  then have sj: "s \<le> j"
    by (simp add: s_def)
  define k where "k = j - s"
  have j: "j = k + s"
    using sj by (simp add: k_def)
  have e': "- int j + int s = - int k"
    using j by simp
  have up: "q \<le> K * 2 ^ k" if "p \<le> K * 2 ^ j" for K
  proof -
    from that have "p \<le> (K * 2 ^ k) * 2 ^ s"
      by (simp add: j power_add mult.assoc)
    then show ?thesis
      unfolding q_def by (rule round_shift_le)
  qed
  have lo: "K * 2 ^ k \<le> q" if "K * 2 ^ j \<le> p" for K
  proof -
    from that have "(K * 2 ^ k) * 2 ^ s \<le> p"
      by (simp add: j power_add mult.assoc)
    then show ?thesis
      unfolding q_def by (rule round_shift_ge)
  qed
  have "q \<le> n * 2 ^ k"
    using p_le by (rule up)
  also have "\<dots> < 2 ^ 53 * 2 ^ k"
    using n by simp
  finally have "q < 2 ^ (53 + k)"
    by (simp add: power_add)
  then have "bitlen q \<le> 53 + k"
    by (rule bitlen_le)
  then have fin: "\<not> (q \<noteq> 0 \<and> int (bitlen q) + - int k > 1024)"
    by simp
  have "round_double sg p (- int j) =
          (if q \<noteq> 0 \<and> int (bitlen q) + (- int j + int s) > 1024 then Infinity sg
           else Finite sg q (- int j + int s))"
    by (simp only: round_double_def Let_def q_def s_def)
  also have "\<dots> = Finite sg q (- int k)"
    using fin by (simp only: e' if_False)
  finally have rd: "round_double sg (n * m) (- int j) = Finite sg q (- int k)"
    by (simp only: p_def)
  have err: "q * 2 ^ s = p
      \<or> 0 < s \<and> q * 2 ^ s \<le> p + 2 ^ (s - 1) \<and> (2 ^ 52 \<le> q \<or> k = 1074 \<and> q \<le> 2 ^ 53)"
  proof (cases "s = 0")
    case True
    then show ?thesis
      by (simp add: q_def round_shift_def)
  next
    case False
    then have s0: "0 < s"
      by simp
    then have e1: "q * 2 ^ s \<le> p + 2 ^ (s - 1)"
      unfolding q_def by (rule round_shift_err)
    have "2 ^ 52 \<le> q \<or> k = 1074 \<and> q \<le> 2 ^ 53"
    proof (cases "- 1074 - (- int j) \<le> int (bitlen p) - 53")
      case True
      with s0 have sb: "bitlen p = 53 + s"
        by (simp add: s_def)
      have "p \<noteq> 0"
      proof
        assume "p = 0"
        then have "bitlen p = 0"
          by (simp add: bitlen.simps[of 0])
        with sb show False
          by simp
      qed
      then have "2 ^ (bitlen p - 1) \<le> p"
        by (rule bitlen_lower)
      then have "2 ^ 52 * 2 ^ s \<le> p"
        by (simp add: sb power_add)
      then have "2 ^ 52 \<le> q"
        unfolding q_def by (rule round_shift_ge)
      then show ?thesis ..
    next
      case False
      with s0 have sv: "int s = int j - 1074" and bl: "bitlen p < 53 + s"
        by (simp_all add: s_def)
      from sv j have k: "k = 1074"
        by simp
      have "p < 2 ^ bitlen p"
        by (rule bitlen_upper)
      also from bl have "(2::nat) ^ bitlen p \<le> 2 ^ (53 + s)"
        by (intro power_increasing) simp_all
      finally have "p \<le> 2 ^ 53 * 2 ^ s"
        by (simp add: power_add)
      then have "q \<le> 2 ^ 53"
        unfolding q_def by (rule round_shift_le)
      with k show ?thesis
        by simp
    qed
    with s0 e1 show ?thesis
      by simp
  qed
  from rd j up lo err show ?thesis
    unfolding p_def by blast
qed

lemma float_val_neg: "float_val (Finite False q (- int k)) = of_nat q / 2 ^ k"
  by (cases "k = 0") (simp_all add: float_val_def)

lemma of_nat_div_le_of_nat:
  "(of_nat P / 2 ^ j :: rat) \<le> of_nat K \<longleftrightarrow> P \<le> K * 2 ^ j"
proof -
  have "(of_nat P / 2 ^ j :: rat) \<le> of_nat K \<longleftrightarrow> (of_nat P :: rat) \<le> of_nat K * 2 ^ j"
    by (simp add: divide_le_eq)
  also have "\<dots> \<longleftrightarrow> (of_nat P :: rat) \<le> of_nat (K * 2 ^ j)"
    by simp
  also have "\<dots> \<longleftrightarrow> P \<le> K * 2 ^ j"
    by (rule of_nat_le_iff)
  finally show ?thesis .
qed

text \<open>
  The product as computed and the exact product \<open>x\<close>: the computed one has the floor of
  \<open>x\<close>, or it is the integer just above \<open>x\<close>, to which \<open>x\<close> was rounded; and \<open>x\<close> is
  rounded up to an integer \<open>C\<close> only from within \<open>C / 2^53\<close> of it.
\<close>

lemma fmul_near_product:
  assumes n: "n < 2 ^ 53"
      and lo: "0 \<le> float_val (Finite sg m e)"
      and hi: "float_val (Finite sg m e) \<le> 1"
  shows "\<lfloor>of_nat n * float_val (Finite sg m e)\<rfloor>
           \<le> \<lfloor>float_val (fmul (Finite False n 0) (Finite sg m e))\<rfloor>"
    and "\<lfloor>float_val (fmul (Finite False n 0) (Finite sg m e))\<rfloor>
           \<le> \<lceil>of_nat n * float_val (Finite sg m e)\<rceil>"
    and "\<lfloor>float_val (fmul (Finite False n 0) (Finite sg m e))\<rfloor>
           = \<lfloor>of_nat n * float_val (Finite sg m e)\<rfloor>
         \<or> float_val (fmul (Finite False n 0) (Finite sg m e))
             = of_int \<lceil>of_nat n * float_val (Finite sg m e)\<rceil>
           \<and> (of_int \<lceil>of_nat n * float_val (Finite sg m e)\<rceil>
                - of_nat n * float_val (Finite sg m e)) * 2 ^ 53
               \<le> of_int \<lceil>of_nat n * float_val (Finite sg m e)\<rceil>"
proof -
  let ?x = "of_nat n * float_val (Finite sg m e)"
  let ?v = "float_val (fmul (Finite False n 0) (Finite sg m e))"
  have all: "\<lfloor>?x\<rfloor> \<le> \<lfloor>?v\<rfloor> \<and> \<lfloor>?v\<rfloor> \<le> \<lceil>?x\<rceil>
      \<and> (\<lfloor>?v\<rfloor> = \<lfloor>?x\<rfloor>
         \<or> ?v = of_int \<lceil>?x\<rceil> \<and> (of_int \<lceil>?x\<rceil> - ?x) * 2 ^ 53 \<le> of_int \<lceil>?x\<rceil>)"
  proof (cases "m = 0")
    case True
    from round_double_zero[of sg e] obtain e' where "round_double sg 0 e = Finite sg 0 e'"
      by blast
    with True show ?thesis
      by (simp add: float_val_def)
  next
    case False
    with lo have sg: "\<not> sg"
      by (simp add: float_val_nonneg)
    with hi have hi': "if 0 \<le> e then m * 2 ^ nat e \<le> 1 else m \<le> 2 ^ nat (- e)"
      by (simp add: float_val_le_1)
    have e: "e \<le> 0"
    proof (rule ccontr)
      assume "\<not> e \<le> 0"
      then have "0 \<le> e" "0 < nat e" by simp_all
      with hi' have m1: "m * 2 ^ nat e \<le> 1" by simp
      from \<open>0 < nat e\<close> obtain i where i: "nat e = Suc i"
        by (cases "nat e") simp_all
      from False have "1 \<le> m * 2 ^ i" by simp
      then have "2 \<le> m * 2 ^ nat e" by (simp add: i)
      with m1 show False by simp
    qed
    define j where "j = nat (- e)"
    have ej: "e = - int j"
      using e by (simp add: j_def)
    have mj: "m \<le> 2 ^ j"
      using hi' e by (cases "e = 0") (simp_all add: j_def)
    from round_double_near[OF n mj, of False] obtain q k s where
      rd: "round_double False (n * m) (- int j) = Finite False q (- int k)"
      and jks: "j = k + s"
      and below: "\<And>K. K * 2 ^ j \<le> n * m \<Longrightarrow> K * 2 ^ k \<le> q"
      and above: "\<And>K. n * m \<le> K * 2 ^ j \<Longrightarrow> q \<le> K * 2 ^ k"
      and err: "q * 2 ^ s = n * m
          \<or> 0 < s \<and> q * 2 ^ s \<le> n * m + 2 ^ (s - 1)
            \<and> (2 ^ 52 \<le> q \<or> k = 1074 \<and> q \<le> 2 ^ 53)"
      by blast
    define P where "P = n * m"
    have x: "?x = of_nat P / 2 ^ j"
      using sg by (simp add: ej float_val_neg P_def)
    have v: "?v = of_nat q / 2 ^ k"
      using sg rd by (simp add: ej float_val_neg)
    have fx: "\<lfloor>?x\<rfloor> = int (P div 2 ^ j)"
      unfolding x using floor_divide_of_nat_eq[of P "2 ^ j", where ?'a = rat] by simp
    have fv: "\<lfloor>?v\<rfloor> = int (q div 2 ^ k)"
      unfolding v using floor_divide_of_nat_eq[of q "2 ^ k", where ?'a = rat] by simp
    have "(P div 2 ^ j) * 2 ^ j \<le> P"
      by simp
    then have "(P div 2 ^ j) * 2 ^ k \<le> q"
      unfolding P_def by (rule below)
    then have "(P div 2 ^ j) * 2 ^ k div 2 ^ k \<le> q div 2 ^ k"
      by (rule div_le_mono)
    then have one: "P div 2 ^ j \<le> q div 2 ^ k"
      by simp
    define C where "C = nat \<lceil>?x\<rceil>"
    have x0: "0 \<le> ?x"
      unfolding x by simp
    then have C: "\<lceil>?x\<rceil> = int C"
      by (simp add: C_def)
    have "?x \<le> of_int \<lceil>?x\<rceil>"
      by (rule le_of_int_ceiling)
    then have "?x \<le> of_nat C"
      unfolding C by simp
    then have "(of_nat P / 2 ^ j :: rat) \<le> of_nat C"
      unfolding x .
    then have PC: "P \<le> C * 2 ^ j"
      by (simp only: of_nat_div_le_of_nat)
    then have qC: "q \<le> C * 2 ^ k"
      unfolding P_def by (rule above)
    then have "q div 2 ^ k \<le> C * 2 ^ k div 2 ^ k"
      by (rule div_le_mono)
    then have two: "q div 2 ^ k \<le> C"
      by simp
    have three: "?v = of_int \<lceil>?x\<rceil> \<and> (of_int \<lceil>?x\<rceil> - ?x) * 2 ^ 53 \<le> of_int \<lceil>?x\<rceil>"
      if ne: "q div 2 ^ k \<noteq> P div 2 ^ j"
    proof -
      have "\<lceil>?x\<rceil> - \<lfloor>?x\<rfloor> \<le> 1"
        by (rule ceiling_diff_floor_le_1)
      then have "C \<le> P div 2 ^ j + 1"
        unfolding C fx by linarith
      with one ne two have qd: "q div 2 ^ k = C"
        by linarith
      have "(q div 2 ^ k) * 2 ^ k \<le> q"
        by simp
      with qd qC have q: "q = C * 2 ^ k"
        by simp
      then have "?v = of_nat C"
        unfolding v by simp
      then have vC: "?v = of_int \<lceil>?x\<rceil>"
        unfolding C by simp
      have inexact: "q * 2 ^ s \<noteq> P"
      proof
        assume "q * 2 ^ s = P"
        then have "P div 2 ^ j = (q * 2 ^ s) div (2 ^ k * 2 ^ s)"
          by (simp only: jks power_add)
        also have "\<dots> = q div 2 ^ k"
          by (rule div_mult_mult2) simp
        finally show False
          using ne by simp
      qed
      have normal: "\<not> (k = 1074 \<and> q \<le> 2 ^ 53)"
      proof
        assume a: "k = 1074 \<and> q \<le> 2 ^ 53"
        have "C = 0"
        proof (rule ccontr)
          assume "C \<noteq> 0"
          then have "(2::nat) ^ k \<le> C * 2 ^ k"
            by simp
          also have "C * 2 ^ k \<le> 2 ^ 53"
            using conjunct2[OF a] by (simp only: q[symmetric])
          finally have "k \<le> 53"
            by (rule power_le_imp_le_exp[rotated]) simp
          with a show False
            by simp
        qed
        with qd one ne show False
          by simp
      qed
      from err inexact normal have s0: "0 < s" and e1: "q * 2 ^ s \<le> P + 2 ^ (s - 1)"
        and q52: "2 ^ 52 \<le> q"
        unfolding P_def by blast+
      from s0 obtain i where i: "s = Suc i"
        by (cases s) simp_all
      have Cj: "C * 2 ^ j = q * 2 ^ s"
        by (simp add: q jks power_add)
      have "2 ^ (s - 1) * 2 ^ 53 = 2 ^ 52 * (2::nat) ^ s"
        by (simp add: i)
      also from q52 have "\<dots> \<le> q * 2 ^ s"
        by (rule mult_le_mono1)
      finally have half: "2 ^ (s - 1) * 2 ^ 53 \<le> C * 2 ^ j"
        by (simp only: Cj)
      from e1 have "C * 2 ^ j * 2 ^ 53 \<le> (P + 2 ^ (s - 1)) * 2 ^ 53"
        unfolding Cj by (rule mult_le_mono1)
      also have "\<dots> = P * 2 ^ 53 + 2 ^ (s - 1) * 2 ^ 53"
        by (rule add_mult_distrib)
      also from half have "\<dots> \<le> P * 2 ^ 53 + C * 2 ^ j"
        by simp
      finally have "C * 2 ^ j * 2 ^ 53 \<le> P * 2 ^ 53 + C * 2 ^ j" .
      then have "(of_nat (C * 2 ^ j * 2 ^ 53) :: rat) \<le> of_nat (P * 2 ^ 53 + C * 2 ^ j)"
        by (simp only: of_nat_le_iff)
      then have "(of_nat C :: rat) * 2 ^ j * 2 ^ 53 \<le> of_nat P * 2 ^ 53 + of_nat C * 2 ^ j"
        by simp
      then have "((of_nat C :: rat) - of_nat P / 2 ^ j) * 2 ^ 53 \<le> of_nat C"
        by (simp add: field_simps)
      moreover have "rat_of_int \<lceil>?x\<rceil> = of_nat C"
        unfolding C by simp
      ultimately have "(of_int \<lceil>?x\<rceil> - ?x) * 2 ^ 53 \<le> of_int \<lceil>?x\<rceil>"
        using x by (simp only:)
      with vC show ?thesis ..
    qed
    from one two three show ?thesis
      unfolding fx fv C by auto
  qed
  from all show "\<lfloor>?x\<rfloor> \<le> \<lfloor>?v\<rfloor>" by blast
  from all show "\<lfloor>?v\<rfloor> \<le> \<lceil>?x\<rceil>" by blast
  from all show "\<lfloor>?v\<rfloor> = \<lfloor>?x\<rfloor>
      \<or> ?v = of_int \<lceil>?x\<rceil> \<and> (of_int \<lceil>?x\<rceil> - ?x) * 2 ^ 53 \<le> of_int \<lceil>?x\<rceil>" by blast
qed

subsection \<open>The split and the two files\<close>

lemma slice_nat:
  "slice_to (int k) xs = take k xs"
  "slice_from (int k) xs = drop k xs"
  by (simp_all add: slice_to_def slice_from_def)

lemma shuffle_length: "shuffle R x g = Inr (y, g') \<Longrightarrow> length y = length x"
  by (drule shuffle_perm) (rule mset_eq_length)

lemma split_data_Inr_D:
  assumes "split_data R data0 r seed = Inr (n, train, test)"
  shows "\<exists>data g k. shuffle R data0 (seed_state R seed) = Inr (data, g)
           \<and> n = length data \<and> train = drop k data \<and> test = take k data"
  using assms
  by (auto simp: split_data_def slice_to_def slice_from_def Let_def split: sum.splits prod.splits)

lemma split_data_count:
  assumes sh: "shuffle R data0 (seed_state R seed) = Inr (data, g)"
      and n: "length data0 < 2 ^ 53"
      and lo: "0 \<le> float_val (Finite sg m e)"
      and hi: "float_val (Finite sg m e) \<le> 1"
  shows "\<exists>k. split_data R data0 (Finite sg m e) seed = Inr (length data, drop k data, take k data)
           \<and> k \<le> length data
           \<and> int k = \<lfloor>float_val (fmul (Finite False (length data) 0) (Finite sg m e))\<rfloor>
           \<and> (float_val (Finite sg m e) = 1 \<longrightarrow> k = length data)
           \<and> (float_val (Finite sg m e) = 0 \<longrightarrow> k = 0)"
proof -
  from sh have len: "length data = length data0"
    by (rule shuffle_length)
  with n have n': "length data < 2 ^ 53"
    by simp
  then have fn: "float_of_nat (length data) = Inr (Finite False (length data) 0)"
    by (rule float_of_nat_small)
  from fmul_count[OF n' lo hi] obtain q e' where
    fm: "fmul (Finite False (length data) 0) (Finite sg m e) = Finite sg q e'"
    and z: "sg \<longrightarrow> q = 0"
    and le: "trunc_mag q e' \<le> length data"
    and one: "float_val (Finite sg m e) = 1 \<longrightarrow> trunc_mag q e' = length data"
    and zero: "float_val (Finite sg m e) = 0 \<longrightarrow> q = 0"
    by blast
  define k where "k = trunc_mag q e'"
  have tz: "q = 0 \<Longrightarrow> trunc_mag q e' = 0"
    by (simp add: trunc_mag_def)
  have pi: "py_int (Finite sg q e') = Inr (int k)"
    using z tz by (auto simp: py_int_def k_def)
  have fl: "int k = \<lfloor>float_val (Finite sg q e')\<rfloor>"
    using py_int_floor[OF z, of e'] pi by simp
  have "split_data R data0 (Finite sg m e) seed = Inr (length data, drop k data, take k data)"
    using sh fn fm pi by (simp add: split_data_def slice_nat del: fmul.simps)
  moreover have "k \<le> length data"
    using le by (simp add: k_def)
  moreover have "float_val (Finite sg m e) = 0 \<longrightarrow> k = 0"
    using zero tz by (simp add: k_def)
  ultimately show ?thesis
    using fl fm one by (auto simp: k_def simp del: fmul.simps)
qed

lemma write_items_world:
  "files w p = Some t \<Longrightarrow>
     write_items L p items w = w\<lparr>files := (files w)(p \<mapsto> t @ jsonl_text L items)\<rparr>"
proof (induction items arbitrary: w t)
  case Nil
  then show ?case by (simp add: jsonl_text_Nil map_upd_triv)
next
  case (Cons item rest)
  let ?s = "json_dumps L item @ [newline]"
  let ?w = "file_write w p ?s"
  from Cons.prems have w1: "?w = w\<lparr>files := (files w)(p \<mapsto> t @ ?s)\<rparr>"
    by (simp add: file_write_def file_text_def)
  then have f1: "files ?w p = Some (t @ ?s)"
    by simp
  have "write_items L p (item # rest) w = write_items L p rest ?w"
    by simp
  also have "\<dots> = ?w\<lparr>files := (files ?w)(p \<mapsto> (t @ ?s) @ jsonl_text L rest)\<rparr>"
    using f1 by (rule Cons.IH)
  also have "(files ?w)(p \<mapsto> (t @ ?s) @ jsonl_text L rest)
               = (files w)(p \<mapsto> t @ jsonl_text L (item # rest))"
    unfolding w1 by (simp add: jsonl_text_Cons)
  also have "?w\<lparr>files := (files w)(p \<mapsto> t @ jsonl_text L (item # rest))\<rparr>
               = w\<lparr>files := (files w)(p \<mapsto> t @ jsonl_text L (item # rest))\<rparr>"
    unfolding w1 by simp
  finally show ?case .
qed

lemma write_jsonl_ok:
  "writable w p \<Longrightarrow>
     write_jsonl L d p w = (Inr (), w\<lparr>files := (files w)(p \<mapsto> jsonl_text L d)\<rparr>)"
proof -
  assume wr: "writable w p"
  let ?w1 = "w\<lparr>files := (files w)(p \<mapsto> [])\<rparr>"
  have "files ?w1 p = Some []" by simp
  from write_items_world[OF this, of L d] wr show ?thesis
    by (simp add: write_jsonl_def open_write_def)
qed

lemma write_jsonl_fail:
  "\<not> writable w p \<Longrightarrow> write_jsonl L d p w = (Inl OSError, w)"
  by (simp add: write_jsonl_def open_write_def)

lemma split_jsonl_written:
  assumes "files w input_file = Some body"
      and "read_dataset L body = Inr data0"
      and "split_data R data0 test_ratio seed = Inr (n, train, test)"
      and "writable w train_file"
      and "writable w test_file"
  shows "fst (split_jsonl L R input_file train_file test_file test_ratio seed w) = Inr ()"
    and "files (snd (split_jsonl L R input_file train_file test_file test_ratio seed w)) test_file
           = Some (jsonl_text L test)"
    and "train_file \<noteq> test_file \<Longrightarrow>
         files (snd (split_jsonl L R input_file train_file test_file test_ratio seed w)) train_file
           = Some (jsonl_text L train)"
  using assms
  by (simp_all add: split_jsonl_def write_jsonl_ok files_py_print)

lemma split_jsonl_fst:
  "fst (split_jsonl L R input_file train_file test_file test_ratio seed w) =
     (case files w input_file of
        None \<Rightarrow> Inl OSError
      | Some body \<Rightarrow>
          (case read_dataset L body of
             Inl e \<Rightarrow> Inl e
           | Inr data0 \<Rightarrow>
               (case split_data R data0 test_ratio seed of
                  Inl e \<Rightarrow> Inl e
                | Inr res \<Rightarrow>
                    if writable w train_file \<and> writable w test_file then Inr () else Inl OSError)))"
proof (cases "files w input_file")
  case None
  then show ?thesis by (simp add: split_jsonl_def)
next
  case (Some body)
  show ?thesis
  proof (cases "read_dataset L body")
    case (Inl e)
    with Some show ?thesis by (simp add: split_jsonl_def)
  next
    case (Inr data0)
    show ?thesis
    proof (cases "split_data R data0 test_ratio seed")
      case (Inl e)
      with Some Inr show ?thesis by (simp add: split_jsonl_def)
    next
      case sd: (Inr res)
      obtain n train test where res: "res = (n, train, test)"
        by (cases res) auto
      show ?thesis
      proof (cases "writable w train_file")
        case False
        with Some Inr sd res show ?thesis
          by (simp add: split_jsonl_def write_jsonl_fail)
      next
        case True
        show ?thesis
        proof (cases "writable w test_file")
          case False
          with True Some Inr sd res show ?thesis
            by (simp add: split_jsonl_def write_jsonl_ok write_jsonl_fail)
        next
          case wt: True
          with True Some Inr sd res show ?thesis
            by (simp add: split_jsonl_def write_jsonl_ok)
        qed
      qed
    qed
  qed
qed

lemma split_jsonl_Inr_D:
  assumes "fst (split_jsonl L R input_file train_file test_file test_ratio seed w) = Inr ()"
  shows "\<exists>body data0 n train test.
           files w input_file = Some body \<and> read_dataset L body = Inr data0
         \<and> split_data R data0 test_ratio seed = Inr (n, train, test)
         \<and> writable w train_file \<and> writable w test_file"
  using assms unfolding split_jsonl_fst
  by (auto split: option.splits sum.splits if_splits)

lemma mset_drop_take: "mset (drop k xs) + mset (take k xs) = mset xs"
proof -
  have "mset (take k xs @ drop k xs) = mset xs" by simp
  then show ?thesis by (simp only: mset_append add.commute)
qed

lemma split_jsonl_succeeds:
  assumes inp: "files w input_file = Some body"
      and ok: "\<forall>raw \<in> set (iter_lines body). \<not> rejected_line L raw"
      and rng: "rng_in_range R"
      and len: "length (parsed_lines L (iter_lines body)) < 2 ^ 53"
      and lo: "0 \<le> float_val (Finite sg m e)"
      and hi: "float_val (Finite sg m e) \<le> 1"
      and wtr: "writable w train_file"
      and wte: "writable w test_file"
  shows "fst (split_jsonl L R input_file train_file test_file (Finite sg m e) seed w) = Inr ()"
proof -
  from ok have rd: "read_dataset L body = Inr (parsed_lines L (iter_lines body))"
    using read_dataset_ok by blast
  from shuffle_total[OF rng] obtain data g where
    sh: "shuffle R (parsed_lines L (iter_lines body)) (seed_state R seed) = Inr (data, g)"
    by blast
  from split_data_count[OF sh len lo hi] obtain k where
    "split_data R (parsed_lines L (iter_lines body)) (Finite sg m e) seed
       = Inr (length data, drop k data, take k data)"
    by blast
  from inp rd this wtr wte show ?thesis
    by (rule split_jsonl_written(1))
qed

subsection \<open>A sample run\<close>

lemma sample_rng_in_range: "rng_in_range sample_random"
  by (simp add: rng_in_range_def sample_random_sel)

lemma default_test_ratio_bounds:
  "0 \<le> float_val default_test_ratio" "float_val default_test_ratio \<le> 1"
  by (simp_all add: default_test_ratio_def float_val_def)

lemma list_update_Cons_numeral:
  "(x # xs)[numeral v := y] = x # xs[numeral v - 1 := y]"
  by (simp add: numeral_eq_Suc)

lemma shuffle_from_numeral:
  "shuffle_from R (numeral v) x g =
     (case randbelow R (numeral v + 1) g of
        (j, g') \<Rightarrow>
          if j < length x
          then shuffle_from R (numeral v - 1) (x[numeral v := x ! j, j := x ! numeral v]) g'
          else Inl IndexError)"
proof -
  have k: "(numeral v :: nat) = Suc (pred_numeral v)"
    by (rule numeral_eq_Suc)
  show ?thesis
    unfolding k by (simp split: prod.split cong: if_cong)
qed

lemma shuffle_from_Suc_0:
  "shuffle_from R (Suc 0) x g =
     (case randbelow R 2 g of
        (j, g') \<Rightarrow>
          if j < length x
          then shuffle_from R 0 (x[Suc 0 := x ! j, j := x ! Suc 0]) g'
          else Inl IndexError)"
  by (simp add: numeral_2_eq_2 split: prod.split cong: if_cong)

lemma shuffle_from_0: "shuffle_from R 0 x g = Inr (x, g)"
  by simp

text \<open>The sample generator on five records with seed 42.\<close>

lemma sample_shuffle:
  "shuffle sample_random [JInt 5, JObj [], JInt 7, JNull, JArr []] (seed_state sample_random 42)
     = Inr ([JInt 5, JObj [], JArr [], JNull, JInt 7], 1668674806)"
proof -
  have n: "length [JInt 5, JObj [], JInt 7, JNull, JArr []] - 1 = 4"
    by simp
  have "shuffle_from sample_random 4 [JInt 5, JObj [], JInt 7, JNull, JArr []] 42
          = Inr ([JInt 5, JObj [], JArr [], JNull, JInt 7], 1668674806)"
    by (simp add: shuffle_from_numeral shuffle_from_Suc_0 shuffle_from_0 sample_random_sel
          list_update_Cons_numeral del: shuffle_from.simps)
  then show ?thesis
    by (simp only: shuffle_def n sample_random_sel) simp
qed

lemma sample_n_test:
  "float_of_nat 5 = Inr (Finite False 5 0)"
  "py_int (fmul (Finite False 5 0) default_test_ratio) = Inr 1"
  by (simp_all add: default_test_ratio_def float_eval)

lemma sample_split_data:
  "split_data sample_random [JInt 5, JObj [], JInt 7, JNull, JArr []] default_test_ratio 42
     = Inr (5, [JObj [], JArr [], JNull, JInt 7], [JInt 5])"
proof -
  have len: "length [JInt 5, JObj [], JArr [], JNull, JInt 7] = 5"
    by simp
  show ?thesis
    by (simp only: split_data_def sample_shuffle sum.case prod.case Let_def len sample_n_test)
       (simp add: slice_to_def slice_from_def)
qed

text \<open>The sample generator on ten records with seed 42, and the ratio \<open>0.7\<close>.\<close>

lemma sample_shuffle_ten:
  "shuffle sample_random [JInt 0, JInt 1, JInt 2, JInt 3, JInt 4, JInt 5, JInt 6, JInt 7, JInt 8, JInt 9]
     (seed_state sample_random 42)
     = Inr ([JInt 1, JInt 3, JInt 9, JInt 5, JInt 7, JInt 4, JInt 6, JInt 8, JInt 0, JInt 2], 1314989459)"
proof -
  have n: "length [JInt 0, JInt 1, JInt 2, JInt 3, JInt 4, JInt 5, JInt 6, JInt 7, JInt 8, JInt 9] - 1 = 9"
    by simp
  have "shuffle_from sample_random 9 [JInt 0, JInt 1, JInt 2, JInt 3, JInt 4, JInt 5, JInt 6, JInt 7, JInt 8, JInt 9] 42
          = Inr ([JInt 1, JInt 3, JInt 9, JInt 5, JInt 7, JInt 4, JInt 6, JInt 8, JInt 0, JInt 2], 1314989459)"
    by (simp add: shuffle_from_numeral shuffle_from_Suc_0 shuffle_from_0 sample_random_sel
          list_update_Cons_numeral del: shuffle_from.simps)
  then show ?thesis
    by (simp only: shuffle_def n sample_random_sel) simp
qed

lemma sample_n_test_ten:
  "float_of_nat 10 = Inr (Finite False 10 0)"
  "py_int (fmul (Finite False 10 0) (Finite False 6305039478318694 (- 53))) = Inr 7"
  by (simp_all add: float_eval)

lemma sample_split_data_ten:
  "split_data sample_random [JInt 0, JInt 1, JInt 2, JInt 3, JInt 4, JInt 5, JInt 6, JInt 7, JInt 8, JInt 9]
     (Finite False 6305039478318694 (- 53)) 42
     = Inr (10, [JInt 8, JInt 0, JInt 2], [JInt 1, JInt 3, JInt 9, JInt 5, JInt 7, JInt 4, JInt 6])"
proof -
  have len: "length [JInt 1, JInt 3, JInt 9, JInt 5, JInt 7, JInt 4, JInt 6, JInt 8, JInt 0, JInt 2] = 10"
    by simp
  show ?thesis
    by (simp only: split_data_def sample_shuffle_ten sum.case prod.case Let_def len sample_n_test_ten)
       (simp add: slice_to_def slice_from_def)
qed

lemma sample_n_test_half:
  "py_int (fmul (Finite False 5 0) (Finite False 1 (- 1))) = Inr 2"
  by (simp add: float_eval)

lemma sample_split_data_half:
  "split_data sample_random [JInt 5, JObj [], JInt 7, JNull, JArr []] (Finite False 1 (- 1)) 42
     = Inr (5, [JArr [], JNull, JInt 7], [JInt 5, JObj []])"
proof -
  have len: "length [JInt 5, JObj [], JArr [], JNull, JInt 7] = 5"
    by simp
  show ?thesis
    by (simp only: split_data_def sample_shuffle sum.case prod.case Let_def len sample_n_test(1)
          sample_n_test_half)
       (simp add: slice_to_def slice_from_def)
qed

lemma sample_exact_products:
  "\<lfloor>exact_product 10 (Finite False 6305039478318694 (- 53))\<rfloor> = 6"
  "\<lceil>exact_product 10 (Finite False 6305039478318694 (- 53))\<rceil> = 7"
  "\<lfloor>exact_product 5 (Finite False 1 (- 1))\<rfloor> = 2"
  by (simp_all add: exact_product_def float_val_def floor_eq_iff ceiling_eq_iff)

lemma sample_read_dataset:
  "read_dataset sample_lib
     (''5'' @ [newline] @ ''{}'' @ [newline] @ ''7'' @ [newline] @ ''null'' @ [newline] @ ''[]'' @ [newline])
   = Inr [JInt 5, JObj [], JInt 7, JNull, JArr []]"
  by (simp add: read_dataset_def sample_eval)

lemma sample_jsonl_text:
  "jsonl_text sample_lib [JObj [], JArr [], JNull, JInt 7]
     = ''{}'' @ [newline] @ ''[]'' @ [newline] @ ''null'' @ [newline] @ ''7'' @ [newline]"
  "jsonl_text sample_lib [JInt 5] = ''5'' @ [newline]"
  by (simp_all add: jsonl_text_def sample_lib_sel str_int_def digits_eval)

text \<open>
  C1. Whenever the splitter succeeds (with two different output paths), the train file
  and the test file hold two lists of records that together are the input dataset: the
  test list and the train list are the two parts of one rearrangement of the positions of
  the input, so no position goes to both and none is left out. As multisets, train plus
  test is the input, and \<open>len(train) + len(test) = len(input)\<close>.
\<close>

theorem split_jsonl_partition:
  assumes "fst (split_jsonl L R input_file train_file test_file test_ratio seed w) = Inr ()"
      and "train_file \<noteq> test_file"
  shows "\<exists>body data train test p k.
           files w input_file = Some body
         \<and> read_dataset L body = Inr data
         \<and> files (snd (split_jsonl L R input_file train_file test_file test_ratio seed w)) train_file
             = Some (jsonl_text L train)
         \<and> files (snd (split_jsonl L R input_file train_file test_file test_ratio seed w)) test_file
             = Some (jsonl_text L test)
         \<and> mset train + mset test = mset data
         \<and> length train + length test = length data
         \<and> mset p = mset [0..<length data]
         \<and> test = map (\<lambda>i. data ! i) (take k p)
         \<and> train = map (\<lambda>i. data ! i) (drop k p)
         \<and> set (take k p) \<inter> set (drop k p) = {}"
proof -
  from split_jsonl_Inr_D[OF assms(1)] obtain body data n train test where
    inp: "files w input_file = Some body" and rd: "read_dataset L body = Inr data"
    and sd: "split_data R data test_ratio seed = Inr (n, train, test)"
    and wtr: "writable w train_file" and wte: "writable w test_file"
    by blast
  from split_data_Inr_D[OF sd] obtain shuffled g k where
    sh: "shuffle R data (seed_state R seed) = Inr (shuffled, g)"
    and train: "train = drop k shuffled" and test: "test = take k shuffled"
    by blast
  from shuffle_positions[OF sh] obtain p where
    p: "mset p = mset [0..<length data]" and sp: "shuffled = map (\<lambda>i. data ! i) p"
    by blast
  have ms: "mset shuffled = mset data"
    using sh by (rule shuffle_perm)
  have m: "mset train + mset test = mset data"
    using ms by (simp add: train test mset_drop_take)
  then have "size (mset train + mset test) = size (mset data)"
    by simp
  then have l: "length train + length test = length data"
    by simp
  have "distinct p"
    using p by (metis distinct_upt mset_eq_imp_distinct_iff)
  then have d: "set (take k p) \<inter> set (drop k p) = {}"
    by (rule set_take_disj_set_drop_if_distinct) simp
  have t1: "test = map (\<lambda>i. data ! i) (take k p)"
    by (simp add: test sp take_map)
  have t2: "train = map (\<lambda>i. data ! i) (drop k p)"
    by (simp add: train sp drop_map)
  note wr = split_jsonl_written[OF inp rd sd wtr wte]
  from inp rd wr(3)[OF assms(2)] wr(2) m l p t1 t2 d show ?thesis
    by blast
qed

theorem split_jsonl_partition_witness:
  "fst (split_jsonl sample_lib sample_random ''in.jsonl'' ''train.jsonl'' ''test.jsonl'' default_test_ratio 42
         (sample_world (''5'' @ [newline] @ ''{}'' @ [newline] @ ''7'' @ [newline] @ ''null'' @ [newline] @ ''[]'' @ [newline])))
     = Inr ()
   \<and> files (snd (split_jsonl sample_lib sample_random ''in.jsonl'' ''train.jsonl'' ''test.jsonl'' default_test_ratio 42
         (sample_world (''5'' @ [newline] @ ''{}'' @ [newline] @ ''7'' @ [newline] @ ''null'' @ [newline] @ ''[]'' @ [newline]))))
       ''train.jsonl''
     = Some (''{}'' @ [newline] @ ''[]'' @ [newline] @ ''null'' @ [newline] @ ''7'' @ [newline])
   \<and> files (snd (split_jsonl sample_lib sample_random ''in.jsonl'' ''train.jsonl'' ''test.jsonl'' default_test_ratio 42
         (sample_world (''5'' @ [newline] @ ''{}'' @ [newline] @ ''7'' @ [newline] @ ''null'' @ [newline] @ ''[]'' @ [newline]))))
       ''test.jsonl''
     = Some (''5'' @ [newline])
   \<and> (\<exists>body data train test p k.
           files (sample_world (''5'' @ [newline] @ ''{}'' @ [newline] @ ''7'' @ [newline] @ ''null'' @ [newline] @ ''[]'' @ [newline])) ''in.jsonl''
             = Some body
         \<and> read_dataset sample_lib body = Inr data
         \<and> files (snd (split_jsonl sample_lib sample_random ''in.jsonl'' ''train.jsonl'' ''test.jsonl'' default_test_ratio 42
               (sample_world (''5'' @ [newline] @ ''{}'' @ [newline] @ ''7'' @ [newline] @ ''null'' @ [newline] @ ''[]'' @ [newline]))))
             ''train.jsonl''
             = Some (jsonl_text sample_lib train)
         \<and> files (snd (split_jsonl sample_lib sample_random ''in.jsonl'' ''train.jsonl'' ''test.jsonl'' default_test_ratio 42
               (sample_world (''5'' @ [newline] @ ''{}'' @ [newline] @ ''7'' @ [newline] @ ''null'' @ [newline] @ ''[]'' @ [newline]))))
             ''test.jsonl''
             = Some (jsonl_text sample_lib test)
         \<and> mset train + mset test = mset data
         \<and> length train + length test = length data
         \<and> mset p = mset [0..<length data]
         \<and> test = map (\<lambda>i. data ! i) (take k p)
         \<and> train = map (\<lambda>i. data ! i) (drop k p)
         \<and> set (take k p) \<inter> set (drop k p) = {})"
proof -
  let ?t = "''5'' @ [newline] @ ''{}'' @ [newline] @ ''7'' @ [newline] @ ''null'' @ [newline] @ ''[]'' @ [newline]"
  let ?w = "sample_world ?t"
  have inp: "files ?w ''in.jsonl'' = Some ?t"
    by (simp add: sample_world_def)
  have wtr: "writable ?w ''train.jsonl''" and wte: "writable ?w ''test.jsonl''"
    by (simp_all add: sample_world_def)
  have ne: "''train.jsonl'' \<noteq> ''test.jsonl''"
    by simp
  note wr = split_jsonl_written[OF inp sample_read_dataset sample_split_data wtr wte]
  from wr(1) wr(3)[OF ne] wr(2) split_jsonl_partition[OF wr(1) ne] show ?thesis
    by (simp only: sample_jsonl_text simp_thms)
qed

text \<open>
  C2. The outcome of the splitter is a function of the contents of the input file, the
  seed and the ratio alone: two runs in two worlds that agree on the input file (and on
  whether each output path can be opened) end the same way, and when they succeed the
  two train files are identical and the two test files are identical, whatever else the
  worlds held before.
\<close>

theorem split_jsonl_deterministic:
  assumes "files w1 input_file = files w2 input_file"
      and "writable w1 train_file = writable w2 train_file"
      and "writable w1 test_file = writable w2 test_file"
  shows "fst (split_jsonl L R input_file train_file test_file test_ratio seed w1)
           = fst (split_jsonl L R input_file train_file test_file test_ratio seed w2)
       \<and> (fst (split_jsonl L R input_file train_file test_file test_ratio seed w1) = Inr () \<longrightarrow>
            files (snd (split_jsonl L R input_file train_file test_file test_ratio seed w1)) train_file
              = files (snd (split_jsonl L R input_file train_file test_file test_ratio seed w2)) train_file
          \<and> files (snd (split_jsonl L R input_file train_file test_file test_ratio seed w1)) test_file
              = files (snd (split_jsonl L R input_file train_file test_file test_ratio seed w2)) test_file)"
proof -
  have same: "fst (split_jsonl L R input_file train_file test_file test_ratio seed w1)
                = fst (split_jsonl L R input_file train_file test_file test_ratio seed w2)"
    by (simp only: split_jsonl_fst assms)
  have "files (snd (split_jsonl L R input_file train_file test_file test_ratio seed w1)) train_file
          = files (snd (split_jsonl L R input_file train_file test_file test_ratio seed w2)) train_file
      \<and> files (snd (split_jsonl L R input_file train_file test_file test_ratio seed w1)) test_file
          = files (snd (split_jsonl L R input_file train_file test_file test_ratio seed w2)) test_file"
    if ok: "fst (split_jsonl L R input_file train_file test_file test_ratio seed w1) = Inr ()"
  proof -
    from split_jsonl_Inr_D[OF ok] obtain body data n train test where
      inp: "files w1 input_file = Some body" and rd: "read_dataset L body = Inr data"
      and sd: "split_data R data test_ratio seed = Inr (n, train, test)"
      and wtr: "writable w1 train_file" and wte: "writable w1 test_file"
      by blast
    from inp assms(1) have inp2: "files w2 input_file = Some body" by simp
    from wtr assms(2) have wtr2: "writable w2 train_file" by simp
    from wte assms(3) have wte2: "writable w2 test_file" by simp
    note a = split_jsonl_written[OF inp rd sd wtr wte]
    note b = split_jsonl_written[OF inp2 rd sd wtr2 wte2]
    show ?thesis
    proof (cases "train_file = test_file")
      case True
      with a(2) b(2) show ?thesis by simp
    next
      case False
      with a(2) b(2) a(3) b(3) show ?thesis by simp
    qed
  qed
  with same show ?thesis by blast
qed

theorem split_jsonl_deterministic_witness:
  "fst (split_jsonl sample_lib sample_random ''in.jsonl'' ''train.jsonl'' ''test.jsonl'' default_test_ratio 42
         (sample_world (''5'' @ [newline] @ ''{}'' @ [newline] @ ''7'' @ [newline] @ ''null'' @ [newline] @ ''[]'' @ [newline])))
     = Inr ()
   \<and> fst (split_jsonl sample_lib sample_random ''in.jsonl'' ''train.jsonl'' ''test.jsonl'' default_test_ratio 42
         ((sample_world (''5'' @ [newline] @ ''{}'' @ [newline] @ ''7'' @ [newline] @ ''null'' @ [newline] @ ''[]'' @ [newline]))
            \<lparr>files := (files (sample_world (''5'' @ [newline] @ ''{}'' @ [newline] @ ''7'' @ [newline] @ ''null'' @ [newline] @ ''[]'' @ [newline])))
                        (''test.jsonl'' \<mapsto> ''stale''),
             stdout := [''earlier output'']\<rparr>))
     = Inr ()
   \<and> files (snd (split_jsonl sample_lib sample_random ''in.jsonl'' ''train.jsonl'' ''test.jsonl'' default_test_ratio 42
         (sample_world (''5'' @ [newline] @ ''{}'' @ [newline] @ ''7'' @ [newline] @ ''null'' @ [newline] @ ''[]'' @ [newline]))))
       ''train.jsonl''
     = files (snd (split_jsonl sample_lib sample_random ''in.jsonl'' ''train.jsonl'' ''test.jsonl'' default_test_ratio 42
         ((sample_world (''5'' @ [newline] @ ''{}'' @ [newline] @ ''7'' @ [newline] @ ''null'' @ [newline] @ ''[]'' @ [newline]))
            \<lparr>files := (files (sample_world (''5'' @ [newline] @ ''{}'' @ [newline] @ ''7'' @ [newline] @ ''null'' @ [newline] @ ''[]'' @ [newline])))
                        (''test.jsonl'' \<mapsto> ''stale''),
             stdout := [''earlier output'']\<rparr>)))
       ''train.jsonl''
   \<and> files (snd (split_jsonl sample_lib sample_random ''in.jsonl'' ''train.jsonl'' ''test.jsonl'' default_test_ratio 42
         (sample_world (''5'' @ [newline] @ ''{}'' @ [newline] @ ''7'' @ [newline] @ ''null'' @ [newline] @ ''[]'' @ [newline]))))
       ''test.jsonl''
     = files (snd (split_jsonl sample_lib sample_random ''in.jsonl'' ''train.jsonl'' ''test.jsonl'' default_test_ratio 42
         ((sample_world (''5'' @ [newline] @ ''{}'' @ [newline] @ ''7'' @ [newline] @ ''null'' @ [newline] @ ''[]'' @ [newline]))
            \<lparr>files := (files (sample_world (''5'' @ [newline] @ ''{}'' @ [newline] @ ''7'' @ [newline] @ ''null'' @ [newline] @ ''[]'' @ [newline])))
                        (''test.jsonl'' \<mapsto> ''stale''),
             stdout := [''earlier output'']\<rparr>)))
       ''test.jsonl''"
proof -
  let ?t = "''5'' @ [newline] @ ''{}'' @ [newline] @ ''7'' @ [newline] @ ''null'' @ [newline] @ ''[]'' @ [newline]"
  let ?w1 = "sample_world ?t"
  let ?w2 = "?w1\<lparr>files := (files ?w1)(''test.jsonl'' \<mapsto> ''stale''), stdout := [''earlier output'']\<rparr>"
  have h1: "files ?w1 ''in.jsonl'' = files ?w2 ''in.jsonl''"
    by simp
  have h2: "writable ?w1 ''train.jsonl'' = writable ?w2 ''train.jsonl''"
    by simp
  have h3: "writable ?w1 ''test.jsonl'' = writable ?w2 ''test.jsonl''"
    by simp
  have inp: "files ?w1 ''in.jsonl'' = Some ?t"
    by (simp add: sample_world_def)
  have wtr: "writable ?w1 ''train.jsonl''" and wte: "writable ?w1 ''test.jsonl''"
    by (simp_all add: sample_world_def)
  have ok: "fst (split_jsonl sample_lib sample_random ''in.jsonl'' ''train.jsonl'' ''test.jsonl''
                   default_test_ratio 42 ?w1) = Inr ()"
    using inp sample_read_dataset sample_split_data wtr wte by (rule split_jsonl_written(1))
  note d = split_jsonl_deterministic[OF h1 h2 h3, of sample_lib sample_random default_test_ratio 42]
  from d ok show ?thesis
    by (simp only: simp_thms)
qed

text \<open>
  C3. For a dataset of \<open>n_total\<close> records (fewer than \<open>2^53\<close>) and a ratio between 0 and
  1, the splitter cuts the shuffled sequence at \<open>n_test\<close>: the test set is its first
  \<open>n_test\<close> records and the train set the remaining \<open>n_total - n_test\<close> records, in
  shuffled order. The count \<open>n_test\<close> is the floor of the product \<open>n_total * test_ratio\<close>
  as the interpreter computes it, a double. Against the exact product \<open>x\<close> it is the floor
  of \<open>x\<close> or one more: one more only when \<open>x\<close> is rounded up to the integer \<open>C\<close> above it,
  which happens only within \<open>C / 2^53\<close> of \<open>C\<close>; and it is the floor of \<open>x\<close> whenever the
  product needs no rounding.
\<close>

theorem split_data_counts:
  assumes "rng_in_range R"
      and "length data0 < 2 ^ 53"
      and "0 \<le> float_val (Finite sg m e)"
      and "float_val (Finite sg m e) \<le> 1"
  shows "\<exists>data g n_test.
           shuffle R data0 (seed_state R seed) = Inr (data, g)
         \<and> length data = length data0
         \<and> split_data R data0 (Finite sg m e) seed
             = Inr (length data0, drop n_test data, take n_test data)
         \<and> length (take n_test data) = n_test
         \<and> length (drop n_test data) = length data0 - n_test
         \<and> float_of_nat (length data) = Inr (Finite False (length data) 0)
         \<and> int n_test = \<lfloor>float_val (fmul (Finite False (length data) 0) (Finite sg m e))\<rfloor>
         \<and> \<lfloor>exact_product (length data0) (Finite sg m e)\<rfloor> \<le> int n_test
         \<and> int n_test \<le> \<lceil>exact_product (length data0) (Finite sg m e)\<rceil>
         \<and> (int n_test = \<lfloor>exact_product (length data0) (Finite sg m e)\<rfloor>
              \<or> float_val (fmul (Finite False (length data) 0) (Finite sg m e))
                  = of_int \<lceil>exact_product (length data0) (Finite sg m e)\<rceil>
                \<and> (of_int \<lceil>exact_product (length data0) (Finite sg m e)\<rceil>
                    - exact_product (length data0) (Finite sg m e)) * 2 ^ 53
                  \<le> of_int \<lceil>exact_product (length data0) (Finite sg m e)\<rceil>)
         \<and> (bitlen (length data0 * m) \<le> 53 \<and> - 1074 \<le> e
              \<longrightarrow> int n_test = \<lfloor>exact_product (length data0) (Finite sg m e)\<rfloor>)"
proof -
  let ?r = "Finite sg m e"
  from shuffle_total[OF assms(1)] obtain data g where
    sh: "shuffle R data0 (seed_state R seed) = Inr (data, g)"
    by blast
  then have len: "length data = length data0"
    by (rule shuffle_length)
  with assms(2) have n: "length data < 2 ^ 53"
    by simp
  then have fn: "float_of_nat (length data) = Inr (Finite False (length data) 0)"
    by (rule float_of_nat_small)
  from split_data_count[OF sh assms(2,3,4)] obtain k where
    sd: "split_data R data0 ?r seed = Inr (length data, drop k data, take k data)"
    and k: "k \<le> length data"
    and fl: "int k = \<lfloor>float_val (fmul (Finite False (length data) 0) ?r)\<rfloor>"
    by blast
  from sd have sd': "split_data R data0 ?r seed = Inr (length data0, drop k data, take k data)"
    by (simp only: len)
  from k have lt: "length (take k data) = k" and ld: "length (drop k data) = length data0 - k"
    by (simp_all add: len)
  note near = fmul_near_product[OF n assms(3,4)]
  have x: "exact_product (length data0) ?r = of_nat (length data) * float_val ?r"
    by (simp only: exact_product_def len)
  from near(1) have b1: "\<lfloor>exact_product (length data0) ?r\<rfloor> \<le> int k"
    by (simp only: x fl)
  from near(2) have b2: "int k \<le> \<lceil>exact_product (length data0) ?r\<rceil>"
    by (simp only: x fl)
  from near(3) have b3: "int k = \<lfloor>exact_product (length data0) ?r\<rfloor>
      \<or> float_val (fmul (Finite False (length data) 0) ?r)
          = of_int \<lceil>exact_product (length data0) ?r\<rceil>
        \<and> (of_int \<lceil>exact_product (length data0) ?r\<rceil> - exact_product (length data0) ?r) * 2 ^ 53
            \<le> of_int \<lceil>exact_product (length data0) ?r\<rceil>"
    by (simp only: x fl)
  have b4: "bitlen (length data0 * m) \<le> 53 \<and> - 1074 \<le> e
      \<longrightarrow> int k = \<lfloor>exact_product (length data0) ?r\<rfloor>"
  proof
    assume "bitlen (length data0 * m) \<le> 53 \<and> - 1074 \<le> e"
    then have "bitlen (length data * m) \<le> 53" "- 1074 \<le> e"
      by (simp_all only: len)
    with assms(4,3) have "float_val (fmul (Finite False (length data) 0) ?r)
        = of_nat (length data) * float_val ?r"
      by (rule fmul_exact_product)
    then show "int k = \<lfloor>exact_product (length data0) ?r\<rfloor>"
      by (simp only: x fl)
  qed
  from sh len sd' lt ld fn fl b1 b2 b3 b4 show ?thesis
    by blast
qed

theorem split_data_counts_witness:
  "split_data sample_random [JInt 0, JInt 1, JInt 2, JInt 3, JInt 4, JInt 5, JInt 6, JInt 7, JInt 8, JInt 9]
     (Finite False 6305039478318694 (- 53)) 42
     = Inr (10, [JInt 8, JInt 0, JInt 2], [JInt 1, JInt 3, JInt 9, JInt 5, JInt 7, JInt 4, JInt 6])
   \<and> \<lfloor>exact_product 10 (Finite False 6305039478318694 (- 53))\<rfloor> = 6
   \<and> (\<exists>data g n_test.
           shuffle sample_random [JInt 0, JInt 1, JInt 2, JInt 3, JInt 4, JInt 5, JInt 6, JInt 7, JInt 8, JInt 9] (seed_state sample_random 42) = Inr (data, g)
         \<and> length data = length [JInt 0, JInt 1, JInt 2, JInt 3, JInt 4, JInt 5, JInt 6, JInt 7, JInt 8, JInt 9]
         \<and> split_data sample_random [JInt 0, JInt 1, JInt 2, JInt 3, JInt 4, JInt 5, JInt 6, JInt 7, JInt 8, JInt 9] (Finite False 6305039478318694 (- 53)) 42
             = Inr (length [JInt 0, JInt 1, JInt 2, JInt 3, JInt 4, JInt 5, JInt 6, JInt 7, JInt 8, JInt 9], drop n_test data, take n_test data)
         \<and> length (take n_test data) = n_test
         \<and> length (drop n_test data) = length [JInt 0, JInt 1, JInt 2, JInt 3, JInt 4, JInt 5, JInt 6, JInt 7, JInt 8, JInt 9] - n_test
         \<and> float_of_nat (length data) = Inr (Finite False (length data) 0)
         \<and> int n_test = \<lfloor>float_val (fmul (Finite False (length data) 0) (Finite False 6305039478318694 (- 53)))\<rfloor>
         \<and> \<lfloor>exact_product (length [JInt 0, JInt 1, JInt 2, JInt 3, JInt 4, JInt 5, JInt 6, JInt 7, JInt 8, JInt 9]) (Finite False 6305039478318694 (- 53))\<rfloor> \<le> int n_test
         \<and> int n_test \<le> \<lceil>exact_product (length [JInt 0, JInt 1, JInt 2, JInt 3, JInt 4, JInt 5, JInt 6, JInt 7, JInt 8, JInt 9]) (Finite False 6305039478318694 (- 53))\<rceil>
         \<and> (int n_test = \<lfloor>exact_product (length [JInt 0, JInt 1, JInt 2, JInt 3, JInt 4, JInt 5, JInt 6, JInt 7, JInt 8, JInt 9]) (Finite False 6305039478318694 (- 53))\<rfloor>
              \<or> float_val (fmul (Finite False (length data) 0) (Finite False 6305039478318694 (- 53)))
                  = of_int \<lceil>exact_product (length [JInt 0, JInt 1, JInt 2, JInt 3, JInt 4, JInt 5, JInt 6, JInt 7, JInt 8, JInt 9]) (Finite False 6305039478318694 (- 53))\<rceil>
                \<and> (of_int \<lceil>exact_product (length [JInt 0, JInt 1, JInt 2, JInt 3, JInt 4, JInt 5, JInt 6, JInt 7, JInt 8, JInt 9]) (Finite False 6305039478318694 (- 53))\<rceil>
                    - exact_product (length [JInt 0, JInt 1, JInt 2, JInt 3, JInt 4, JInt 5, JInt 6, JInt 7, JInt 8, JInt 9]) (Finite False 6305039478318694 (- 53))) * 2 ^ 53
                  \<le> of_int \<lceil>exact_product (length [JInt 0, JInt 1, JInt 2, JInt 3, JInt 4, JInt 5, JInt 6, JInt 7, JInt 8, JInt 9]) (Finite False 6305039478318694 (- 53))\<rceil>)
         \<and> (bitlen (length [JInt 0, JInt 1, JInt 2, JInt 3, JInt 4, JInt 5, JInt 6, JInt 7, JInt 8, JInt 9] * 6305039478318694) \<le> 53 \<and> - 1074 \<le> (- 53 :: int)
              \<longrightarrow> int n_test = \<lfloor>exact_product (length [JInt 0, JInt 1, JInt 2, JInt 3, JInt 4, JInt 5, JInt 6, JInt 7, JInt 8, JInt 9]) (Finite False 6305039478318694 (- 53))\<rfloor>))
   \<and> split_data sample_random [JInt 5, JObj [], JInt 7, JNull, JArr []] (Finite False 1 (- 1)) 42
       = Inr (5, [JArr [], JNull, JInt 7], [JInt 5, JObj []])
   \<and> \<lfloor>exact_product 5 (Finite False 1 (- 1))\<rfloor> = 2
   \<and> bitlen (length [JInt 5, JObj [], JInt 7, JNull, JArr []] * 1) \<le> 53
   \<and> (\<exists>data g n_test.
           shuffle sample_random [JInt 5, JObj [], JInt 7, JNull, JArr []] (seed_state sample_random 42) = Inr (data, g)
         \<and> length data = length [JInt 5, JObj [], JInt 7, JNull, JArr []]
         \<and> split_data sample_random [JInt 5, JObj [], JInt 7, JNull, JArr []] (Finite False 1 (- 1)) 42
             = Inr (length [JInt 5, JObj [], JInt 7, JNull, JArr []], drop n_test data, take n_test data)
         \<and> length (take n_test data) = n_test
         \<and> length (drop n_test data) = length [JInt 5, JObj [], JInt 7, JNull, JArr []] - n_test
         \<and> float_of_nat (length data) = Inr (Finite False (length data) 0)
         \<and> int n_test = \<lfloor>float_val (fmul (Finite False (length data) 0) (Finite False 1 (- 1)))\<rfloor>
         \<and> \<lfloor>exact_product (length [JInt 5, JObj [], JInt 7, JNull, JArr []]) (Finite False 1 (- 1))\<rfloor> \<le> int n_test
         \<and> int n_test \<le> \<lceil>exact_product (length [JInt 5, JObj [], JInt 7, JNull, JArr []]) (Finite False 1 (- 1))\<rceil>
         \<and> (int n_test = \<lfloor>exact_product (length [JInt 5, JObj [], JInt 7, JNull, JArr []]) (Finite False 1 (- 1))\<rfloor>
              \<or> float_val (fmul (Finite False (length data) 0) (Finite False 1 (- 1)))
                  = of_int \<lceil>exact_product (length [JInt 5, JObj [], JInt 7, JNull, JArr []]) (Finite False 1 (- 1))\<rceil>
                \<and> (of_int \<lceil>exact_product (length [JInt 5, JObj [], JInt 7, JNull, JArr []]) (Finite False 1 (- 1))\<rceil>
                    - exact_product (length [JInt 5, JObj [], JInt 7, JNull, JArr []]) (Finite False 1 (- 1))) * 2 ^ 53
                  \<le> of_int \<lceil>exact_product (length [JInt 5, JObj [], JInt 7, JNull, JArr []]) (Finite False 1 (- 1))\<rceil>)
         \<and> (bitlen (length [JInt 5, JObj [], JInt 7, JNull, JArr []] * 1) \<le> 53 \<and> - 1074 \<le> (- 1 :: int)
              \<longrightarrow> int n_test = \<lfloor>exact_product (length [JInt 5, JObj [], JInt 7, JNull, JArr []]) (Finite False 1 (- 1))\<rfloor>))"
proof -
  have a2: "length [JInt 0, JInt 1, JInt 2, JInt 3, JInt 4, JInt 5, JInt 6, JInt 7, JInt 8, JInt 9] < 2 ^ 53"
    by simp
  have a3: "0 \<le> float_val (Finite False 6305039478318694 (- 53))"
    by (simp add: float_val_def)
  have a4: "float_val (Finite False 6305039478318694 (- 53)) \<le> 1"
    by (simp add: float_val_def)
  have b2: "length [JInt 5, JObj [], JInt 7, JNull, JArr []] < 2 ^ 53"
    by simp
  have b3: "0 \<le> float_val (Finite False 1 (- 1))"
    by (simp add: float_val_def)
  have b4: "float_val (Finite False 1 (- 1)) \<le> 1"
    by (simp add: float_val_def)
  have l5: "length [JInt 5, JObj [], JInt 7, JNull, JArr []] * 1 = 5"
    by simp
  have "bitlen 5 \<le> 53"
    by (simp add: bitlen_eval)
  then have bl: "bitlen (length [JInt 5, JObj [], JInt 7, JNull, JArr []] * 1) \<le> 53"
    by (simp only: l5)
  note t10 = split_data_counts[OF sample_rng_in_range a2 a3 a4, of 42]
  note t5 = split_data_counts[OF sample_rng_in_range b2 b3 b4, of 42]
  show ?thesis
    by (rule conjI[OF sample_split_data_ten conjI[OF sample_exact_products(1) conjI[OF t10
          conjI[OF sample_split_data_half conjI[OF sample_exact_products(3) conjI[OF bl t5]]]]]])
qed

text \<open>
  The count is not the floor of the exact product: with ten records and the ratio \<open>0.7\<close>
  (the double nearest to it, which is below \<open>7/10\<close>) the exact product has floor 6, the
  product the interpreter computes is \<open>7.0\<close>, and seven records go to the test set.
\<close>

theorem split_data_rounds_up:
  "split_data sample_random [JInt 0, JInt 1, JInt 2, JInt 3, JInt 4, JInt 5, JInt 6, JInt 7, JInt 8, JInt 9]
     (Finite False 6305039478318694 (- 53)) 42
     = Inr (10, [JInt 8, JInt 0, JInt 2], [JInt 1, JInt 3, JInt 9, JInt 5, JInt 7, JInt 4, JInt 6])
   \<and> length [JInt 1, JInt 3, JInt 9, JInt 5, JInt 7, JInt 4, JInt 6] = 7
   \<and> \<lfloor>exact_product 10 (Finite False 6305039478318694 (- 53))\<rfloor> = 6
   \<and> 0 \<le> float_val (Finite False 6305039478318694 (- 53))
   \<and> float_val (Finite False 6305039478318694 (- 53)) \<le> 1"
proof -
  have "0 \<le> float_val (Finite False 6305039478318694 (- 53))"
    and "float_val (Finite False 6305039478318694 (- 53)) \<le> 1"
    by (simp_all add: float_val_def)
  with sample_split_data_ten sample_exact_products(1) show ?thesis
    by simp
qed

lemma split_data_empty: "split_data R [] (Finite sg m e) seed = Inr (0, [], [])"
proof -
  have f0: "float_of_nat 0 = Inr (Finite False 0 0)"
    by (rule float_of_nat_small) simp
  from round_double_zero[of "False \<noteq> sg" "0 + e"] obtain e' where
    "round_double (False \<noteq> sg) 0 (0 + e) = Finite (False \<noteq> sg) 0 e'"
    by blast
  then have "py_int (fmul (Finite False 0 0) (Finite sg m e)) = Inr 0"
    by (simp add: py_int_def trunc_mag_def)
  with f0 show ?thesis
    by (simp add: split_data_def shuffle_Nil slice_to_def slice_from_def del: fmul.simps)
qed

text \<open>
  C9. With a ratio of \<open>0.0\<close> the test set is empty and every record goes to train;
  with a ratio of \<open>1.0\<close> the train set is empty and every record goes to test; and an
  empty input gives two empty outputs without an error: both files are written, empty.
\<close>

theorem split_ratio_boundaries:
  assumes "rng_in_range R"
      and "length data0 < 2 ^ 53"
      and "float_val (Finite sg1 m1 e1) = 1"
  shows "(\<exists>data g. shuffle R data0 (seed_state R seed) = Inr (data, g)
            \<and> mset data = mset data0
            \<and> split_data R data0 (Finite sg0 0 e0) seed = Inr (length data0, data, [])
            \<and> split_data R data0 (Finite sg1 m1 e1) seed = Inr (length data0, [], data))
       \<and> split_data R [] (Finite sg m e) seed = Inr (0, [], [])
       \<and> (files w input_file = Some body \<and> read_dataset L body = Inr []
            \<and> writable w train_file \<and> writable w test_file \<and> train_file \<noteq> test_file
          \<longrightarrow> fst (split_jsonl L R input_file train_file test_file (Finite sg m e) seed w) = Inr ()
            \<and> files (snd (split_jsonl L R input_file train_file test_file (Finite sg m e) seed w)) train_file
                = Some []
            \<and> files (snd (split_jsonl L R input_file train_file test_file (Finite sg m e) seed w)) test_file
                = Some [])"
proof -
  from shuffle_total[OF assms(1)] obtain data g where
    sh: "shuffle R data0 (seed_state R seed) = Inr (data, g)"
    by blast
  then have len: "length data = length data0" and ms: "mset data = mset data0"
    by (rule shuffle_length, rule shuffle_perm)
  have z0: "float_val (Finite sg0 0 e0) = 0"
    by (simp add: float_val_def)
  from split_data_count[OF sh assms(2), of sg0 0 e0] z0 obtain k0 where
    "split_data R data0 (Finite sg0 0 e0) seed = Inr (length data, drop k0 data, take k0 data)"
    and "k0 = 0"
    by auto
  then have zero: "split_data R data0 (Finite sg0 0 e0) seed = Inr (length data0, data, [])"
    by (simp add: len)
  from split_data_count[OF sh assms(2), of sg1 m1 e1] assms(3) obtain k1 where
    "split_data R data0 (Finite sg1 m1 e1) seed = Inr (length data, drop k1 data, take k1 data)"
    and "k1 = length data"
    by auto
  then have one: "split_data R data0 (Finite sg1 m1 e1) seed = Inr (length data0, [], data)"
    by (simp add: len)
  have empty: "split_data R [] (Finite sg m e) seed = Inr (0, [], [])"
    by (rule split_data_empty)
  have written: "fst (split_jsonl L R input_file train_file test_file (Finite sg m e) seed w) = Inr ()
            \<and> files (snd (split_jsonl L R input_file train_file test_file (Finite sg m e) seed w)) train_file
                = Some []
            \<and> files (snd (split_jsonl L R input_file train_file test_file (Finite sg m e) seed w)) test_file
                = Some []"
    if "files w input_file = Some body" "read_dataset L body = Inr []"
       "writable w train_file" "writable w test_file" "train_file \<noteq> test_file"
  proof -
    note wr = split_jsonl_written[OF that(1,2) empty that(3,4)]
    from wr(1) wr(3)[OF that(5)] wr(2) show ?thesis
      by (simp add: jsonl_text_Nil)
  qed
  from sh ms zero one empty written show ?thesis
    by blast
qed

theorem split_ratio_boundaries_witness:
  "(\<exists>data g. shuffle sample_random [JInt 5, JObj [], JInt 7, JNull, JArr []] (seed_state sample_random 42)
                = Inr (data, g)
            \<and> mset data = mset [JInt 5, JObj [], JInt 7, JNull, JArr []]
            \<and> split_data sample_random [JInt 5, JObj [], JInt 7, JNull, JArr []] (Finite False 0 0) 42
                = Inr (length [JInt 5, JObj [], JInt 7, JNull, JArr []], data, [])
            \<and> split_data sample_random [JInt 5, JObj [], JInt 7, JNull, JArr []] (Finite False 1 0) 42
                = Inr (length [JInt 5, JObj [], JInt 7, JNull, JArr []], [], data))
   \<and> split_data sample_random [] default_test_ratio 42 = Inr (0, [], [])
   \<and> read_dataset sample_lib ([newline] @ ''  '' @ [newline]) = Inr []
   \<and> fst (split_jsonl sample_lib sample_random ''in.jsonl'' ''train.jsonl'' ''test.jsonl''
             default_test_ratio 42 (sample_world ([newline] @ ''  '' @ [newline])))
       = Inr ()
   \<and> files (snd (split_jsonl sample_lib sample_random ''in.jsonl'' ''train.jsonl'' ''test.jsonl''
             default_test_ratio 42 (sample_world ([newline] @ ''  '' @ [newline])))) ''train.jsonl''
       = Some []
   \<and> files (snd (split_jsonl sample_lib sample_random ''in.jsonl'' ''train.jsonl'' ''test.jsonl''
             default_test_ratio 42 (sample_world ([newline] @ ''  '' @ [newline])))) ''test.jsonl''
       = Some []"
proof -
  let ?t = "[newline] @ ''  '' @ [newline]"
  let ?w = "sample_world ?t"
  have h2: "length [JInt 5, JObj [], JInt 7, JNull, JArr []] < 2 ^ 53"
    by simp
  have h3: "float_val (Finite False 1 0) = 1"
    by (simp add: float_val_def)
  have rd: "read_dataset sample_lib ?t = Inr []"
    by (simp add: read_dataset_def sample_eval)
  have f: "files ?w ''in.jsonl'' = Some ?t \<and> read_dataset sample_lib ?t = Inr []
         \<and> writable ?w ''train.jsonl'' \<and> writable ?w ''test.jsonl'' \<and> ''train.jsonl'' \<noteq> ''test.jsonl''"
    using rd by (simp add: sample_world_def)
  note b = split_ratio_boundaries[OF sample_rng_in_range h2 h3,
      of 42 False 0 False 7205759403792794 "- 55" ?w "''in.jsonl''" ?t sample_lib
         "''train.jsonl''" "''test.jsonl''"]
  from b f rd show ?thesis
    by (simp only: default_test_ratio_def simp_thms)
qed

end
